theory Spec2Isabelle
  imports Main "HOL-Library.Sublist"
begin

section \<open>Python string primitives\<close>

text \<open>
  A transcript is a Python \<open>str\<close>. It is modelled as a \<open>string\<close> whose characters
  are code points below 256. White space is what \<open>str.isspace\<close> and the pattern
  \<open>\s\<close> accept among them: tab, line feed, vertical tab, form feed, carriage return,
  the separators \<open>0x1C-0x1F\<close>, the blank, the next-line control \<open>0x85\<close> and the
  no-break space \<open>0xA0\<close>. Letters are \<open>A-Z\<close> and \<open>a-z\<close> and digits are
  \<open>0-9\<close>: the model is that of ASCII text, and a character beyond ASCII that is not
  white space is treated as a caseless symbol.
\<close>

definition in_range :: "char \<Rightarrow> char \<Rightarrow> char \<Rightarrow> bool" where
  "in_range a b x = ((of_char a :: nat) \<le> of_char x \<and> (of_char x :: nat) \<le> of_char b)"

definition lower_char :: "char \<Rightarrow> char" where
  "lower_char x = (if in_range CHR ''A'' CHR ''Z'' x then char_of ((of_char x :: nat) + 32) else x)"

definition upper_char :: "char \<Rightarrow> char" where
  "upper_char x = (if in_range CHR ''a'' CHR ''z'' x then char_of ((of_char x :: nat) - 32) else x)"

definition py_isspace :: "char \<Rightarrow> bool" where
  "py_isspace x = (in_range (CHR 0x09) (CHR 0x0D) x \<or> in_range (CHR 0x1C) CHR '' '' x
                   \<or> x = CHR 0x85 \<or> x = CHR 0xA0)"

definition py_isdigit :: "char \<Rightarrow> bool" where
  "py_isdigit x = in_range CHR ''0'' CHR ''9'' x"

definition py_isword :: "char \<Rightarrow> bool" where
  "py_isword x = (in_range CHR ''a'' CHR ''z'' x \<or> in_range CHR ''A'' CHR ''Z'' x
                  \<or> py_isdigit x \<or> x = CHR ''_'')"

text \<open>\<open>s.lower()\<close>, \<open>s.capitalize()\<close>, \<open>s.strip()\<close>, \<open>s.replace(" ", "_")\<close>.\<close>

definition lower :: "string \<Rightarrow> string" where
  "lower s = map lower_char s"

definition capitalize :: "string \<Rightarrow> string" where
  "capitalize s = (case s of [] \<Rightarrow> [] | x # xs \<Rightarrow> upper_char x # map lower_char xs)"

definition strip :: "string \<Rightarrow> string" where
  "strip s = rev (dropWhile py_isspace (rev (dropWhile py_isspace s)))"

definition replace_space :: "string \<Rightarrow> string" where
  "replace_space s = map (\<lambda>x. if x = CHR '' '' then CHR ''_'' else x) s"

text \<open>\<open>sub in s\<close>: the substring test.\<close>

fun py_in :: "string \<Rightarrow> string \<Rightarrow> bool" where
  "py_in sub [] = (sub = [])"
| "py_in sub (x # xs) = (prefix sub (x # xs) \<or> py_in sub xs)"

text \<open>\<open>any(word in s for word in words)\<close>.\<close>

definition any_in :: "string list \<Rightarrow> string \<Rightarrow> bool" where
  "any_in words s = list_ex (\<lambda>w. py_in w s) words"

section \<open>The pattern matcher\<close>

text \<open>
  The patterns of the program use literals, character classes, concatenation, alternation,
  greedy and lazy repetition and capturing groups; none uses an anchor, a word boundary, a
  look-around or a back-reference, so whether a pattern matches at a position depends on the
  text from that position on only.

  \<open>rmatch ic r s c\<close> lists, in the order in which a backtracking matcher tries them, every
  way \<open>r\<close> can match a prefix of \<open>s\<close>: the text left after the match and the capture
  groups bound so far. The first entry is the match Python's \<open>re\<close> reports at that
  position. \<open>ic\<close> is the flag \<open>re.IGNORECASE\<close>.
\<close>

datatype citem = CChar char | CRange char char | CSpace | CDigit | CWord

datatype regex =
    Lit string
  | Cls bool "citem list"
  | Seq regex regex
  | Alt regex regex
  | Rep bool nat "nat option" regex
  | Group nat regex

text \<open>
  \<open>Cls neg items\<close> is a character class, negated when \<open>neg\<close> holds.
  \<open>Rep greedy lo hi r\<close> repeats \<open>r\<close> at least \<open>lo\<close> and at most \<open>hi\<close> times
  (\<open>None\<close>: unbounded), preferring more repetitions when \<open>greedy\<close> and fewer otherwise.
\<close>

definition star :: "regex \<Rightarrow> regex" where "star r = Rep True 0 None r"
definition plus :: "regex \<Rightarrow> regex" where "plus r = Rep True 1 None r"
definition opt :: "regex \<Rightarrow> regex" where "opt r = Rep True 0 (Some 1) r"
definition lazy_star :: "regex \<Rightarrow> regex" where "lazy_star r = Rep False 0 None r"
definition lazy_plus :: "regex \<Rightarrow> regex" where "lazy_plus r = Rep False 1 None r"
definition times :: "nat \<Rightarrow> nat \<Rightarrow> regex \<Rightarrow> regex" where "times lo hi r = Rep True lo (Some hi) r"

definition seqs :: "regex list \<Rightarrow> regex" where
  "seqs rs = foldr Seq (butlast rs) (last rs)"

definition alts :: "regex list \<Rightarrow> regex" where
  "alts rs = foldr Alt (butlast rs) (last rs)"

text \<open>
  Under \<open>re.IGNORECASE\<close> a literal matches either case of a letter, and a range such as
  \<open>[A-Z]\<close> matches a character when one of its case variants lies in the range.
\<close>

fun item_match :: "bool \<Rightarrow> citem \<Rightarrow> char \<Rightarrow> bool" where
  "item_match ic (CChar a) x = (if ic then lower_char a = lower_char x else a = x)"
| "item_match ic (CRange a b) x =
     (in_range a b x \<or> (ic \<and> (in_range a b (lower_char x) \<or> in_range a b (upper_char x))))"
| "item_match ic CSpace x = py_isspace x"
| "item_match ic CDigit x = py_isdigit x"
| "item_match ic CWord x = py_isword x"

definition cls_match :: "bool \<Rightarrow> bool \<Rightarrow> citem list \<Rightarrow> char \<Rightarrow> bool" where
  "cls_match ic neg items x = (neg \<noteq> list_ex (\<lambda>i. item_match ic i x) items)"

fun lit_match :: "bool \<Rightarrow> string \<Rightarrow> string \<Rightarrow> string option" where
  "lit_match ic [] s = Some s"
| "lit_match ic (a # w) [] = None"
| "lit_match ic (a # w) (x # s) =
     (if (if ic then lower_char a = lower_char x else a = x) then lit_match ic w s else None)"

type_synonym caps = "(nat \<times> string) list"

fun rsize :: "regex \<Rightarrow> nat" where
  "rsize (Lit w) = 0"
| "rsize (Cls neg items) = 0"
| "rsize (Seq a b) = Suc (rsize a + rsize b)"
| "rsize (Alt a b) = Suc (rsize a + rsize b)"
| "rsize (Rep greedy lo hi r) = Suc (rsize r)"
| "rsize (Group n r) = Suc (rsize r)"

text \<open>\<open>consumed s s'\<close> is the text matched when \<open>s'\<close> is what is left of \<open>s\<close>.\<close>

definition consumed :: "string \<Rightarrow> string \<Rightarrow> string" where
  "consumed s s' = take (length s - length s') s"

function rmatch :: "bool \<Rightarrow> regex \<Rightarrow> string \<Rightarrow> caps \<Rightarrow> (string \<times> caps) list" where
  "rmatch ic (Lit w) s c = (case lit_match ic w s of None \<Rightarrow> [] | Some s' \<Rightarrow> [(s', c)])"
| "rmatch ic (Cls neg items) s c =
     (case s of [] \<Rightarrow> [] | x # xs \<Rightarrow> if cls_match ic neg items x then [(xs, c)] else [])"
| "rmatch ic (Seq r1 r2) s c =
     concat (map (\<lambda>(s', c'). rmatch ic r2 s' c') (rmatch ic r1 s c))"
| "rmatch ic (Alt r1 r2) s c = rmatch ic r1 s c @ rmatch ic r2 s c"
| "rmatch ic (Group n r) s c =
     map (\<lambda>(s', c'). (s', (n, consumed s s') # c')) (rmatch ic r s c)"
| "rmatch ic (Rep greedy lo hi r) s c =
     (let more = (if hi = Some 0 then []
                  else concat (map (\<lambda>(s', c').
                         if length s' < length s
                         then rmatch ic (Rep greedy (lo - 1) (map_option (\<lambda>h. h - 1) hi) r) s' c'
                         else [])
                       (rmatch ic r s c)));
          stop = (if lo = 0 then [(s, c)] else [])
      in if greedy then more @ stop else stop @ more)"
  by pat_completeness auto
termination
  by (relation "measures [\<lambda>(ic, r, s, c). rsize r, \<lambda>(ic, r, s, c). length s]") auto

declare rmatch.simps [simp del]

text \<open>
  A match object is its list of groups; group 0 is the whole matched text.
  \<open>group m n\<close> is \<open>m.group(n)\<close> for a group that took part in the match; the
  groups the program reads always do (lemmas \<open>finditer_binds\<close>, \<open>re_search_binds\<close>
  and \<open>groups_read_are_bound\<close> below).
\<close>

definition mk_match :: "string \<Rightarrow> string \<times> caps \<Rightarrow> caps" where
  "mk_match s m = (0, consumed s (fst m)) # snd m"

definition group :: "caps \<Rightarrow> nat \<Rightarrow> string" where
  "group m n = (case map_of m n of None \<Rightarrow> [] | Some g \<Rightarrow> g)"

text \<open>\<open>re.search\<close>: the match at the leftmost position that has one.\<close>

fun re_search :: "bool \<Rightarrow> regex \<Rightarrow> string \<Rightarrow> caps option" where
  "re_search ic r [] = (case rmatch ic r [] [] of [] \<Rightarrow> None | m # ms \<Rightarrow> Some (mk_match [] m))"
| "re_search ic r (x # xs) =
     (case rmatch ic r (x # xs) [] of [] \<Rightarrow> re_search ic r xs | m # ms \<Rightarrow> Some (mk_match (x # xs) m))"

text \<open>
  \<open>re.finditer\<close>: the successive non-overlapping matches, each search starting where the
  previous match ended. No pattern of the program matches the empty text
  (lemmas \<open>rmatch_shorter\<close> and \<open>patterns_consume\<close> below), so the branch for an
  empty match is never taken.
\<close>

function finditer :: "bool \<Rightarrow> regex \<Rightarrow> string \<Rightarrow> caps list" where
  "finditer ic r s =
     (case rmatch ic r s [] of
        [] \<Rightarrow> (case s of [] \<Rightarrow> [] | x # xs \<Rightarrow> finditer ic r xs)
      | m # ms \<Rightarrow>
          mk_match s m #
          (if length (fst m) < length s then finditer ic r (fst m)
           else (case s of [] \<Rightarrow> [] | x # xs \<Rightarrow> finditer ic r xs)))"
  by pat_completeness auto
termination
  by (relation "measure (\<lambda>(ic, r, s). length s)") auto

declare finditer.simps [simp del]

text \<open>
  \<open>re.split\<close> for a pattern without groups: the pieces of text between the successive
  matches. \<open>acc\<close> holds the current piece, reversed.
\<close>

function split_aux :: "regex \<Rightarrow> string \<Rightarrow> string \<Rightarrow> string list" where
  "split_aux r acc s =
     (case s of
        [] \<Rightarrow> [rev acc]
      | x # xs \<Rightarrow>
          (case rmatch False r s [] of
             [] \<Rightarrow> split_aux r (x # acc) xs
           | m # ms \<Rightarrow>
               if length (fst m) < length s then rev acc # split_aux r [] (fst m)
               else split_aux r (x # acc) xs))"
  by pat_completeness auto
termination
  by (relation "measure (\<lambda>(r, acc, s). length s)") auto

declare split_aux.simps [simp del]

definition re_split :: "regex \<Rightarrow> string \<Rightarrow> string list" where
  "re_split r s = split_aux r [] s"

section \<open>The pattern library\<close>

text \<open>
  Each pattern of \<open>process_transcript.py\<close> as a \<open>regex\<close> value; the source text of the
  pattern is quoted above it. \<open>(?:...)\<close> groups without capturing, \<open>(...)\<close> is a
  \<open>Group\<close>, numbered from 1 in the order of the opening brackets.
\<close>

definition ws :: regex where "ws = Cls False [CSpace]"
definition digit :: regex where "digit = Cls False [CDigit]"
definition word_char :: regex where "word_char = Cls False [CWord]"
definition not_dot :: regex where "not_dot = Cls True [CChar CHR ''.'']"

text \<open>\<open>x?\<close> after a word: \<open>tabs?\<close> is \<open>plural ''tab''\<close>.\<close>

definition plural :: "string \<Rightarrow> regex" where
  "plural w = Seq (Lit w) (opt (Lit ''s''))"

text \<open>\<^verbatim>\<open>[A-Z][A-Za-z\s]+?\<close>\<close>

definition feature_name :: regex where
  "feature_name = Seq (Cls False [CRange CHR ''A'' CHR ''Z''])
     (lazy_plus (Cls False [CRange CHR ''A'' CHR ''Z'', CRange CHR ''a'' CHR ''z'', CSpace]))"

text \<open>
  \<^verbatim>\<open>(?:build|create|implement|develop)\s+(?:a\s+|an\s+|the\s+)?([A-Z][A-Za-z\s]+?)(?:\s+feature|\s+module|\s+system)\<close>
  \<^verbatim>\<open>(?:for\s+the\s+)([A-Z][A-Za-z\s]+?)(?:\s+feature|\s+module)\<close>
\<close>

definition epic_name_patterns :: "regex list" where
  "epic_name_patterns =
    [seqs [alts [Lit ''build'', Lit ''create'', Lit ''implement'', Lit ''develop''],
           plus ws,
           opt (alts [Seq (Lit ''a'') (plus ws), Seq (Lit ''an'') (plus ws), Seq (Lit ''the'') (plus ws)]),
           Group 1 feature_name,
           alts [Seq (plus ws) (Lit ''feature''), Seq (plus ws) (Lit ''module''),
                 Seq (plus ws) (Lit ''system'')]],
     seqs [seqs [Lit ''for'', plus ws, Lit ''the'', plus ws],
           Group 1 feature_name,
           alts [Seq (plus ws) (Lit ''feature''), Seq (plus ws) (Lit ''module'')]]]"

text \<open>
  \<^verbatim>\<open>(?:tabs?|sections?)\s*:\s*([^.]+)\<close>
  \<^verbatim>\<open>(?:split|divided)\s+into\s+(?:\d+\s+)?tabs?\s*:\s*([^.]+)\<close>
\<close>

definition tabs_patterns :: "regex list" where
  "tabs_patterns =
    [seqs [alts [plural ''tab'', plural ''section''], star ws, Lit '':'', star ws,
           Group 1 (plus not_dot)],
     seqs [alts [Lit ''split'', Lit ''divided''], plus ws, Lit ''into'', plus ws,
           opt (Seq (plus digit) (plus ws)), plural ''tab'', star ws, Lit '':'', star ws,
           Group 1 (plus not_dot)]]"

text \<open>
  \<^verbatim>\<open>(nurses?|doctors?|admins?|staff|users?)\s+can\s+([^.]+)\<close>
  \<^verbatim>\<open>only\s+(nurses?|doctors?|admins?)\s+(?:can|should|may)\s+([^.]+)\<close>
\<close>

definition rbac_patterns :: "regex list" where
  "rbac_patterns =
    [seqs [Group 1 (alts [plural ''nurse'', plural ''doctor'', plural ''admin'', Lit ''staff'',
                          plural ''user'']),
           plus ws, Lit ''can'', plus ws, Group 2 (plus not_dot)],
     seqs [Lit ''only'', plus ws,
           Group 1 (alts [plural ''nurse'', plural ''doctor'', plural ''admin'']),
           plus ws, alts [Lit ''can'', Lit ''should'', Lit ''may''], plus ws,
           Group 2 (plus not_dot)]]"

text \<open>
  \<^verbatim>\<open>(?:table|columns?)\s+(?:showing|with|for|displaying)\s+([^.]+)\<close>
  \<^verbatim>\<open>(?:show|display)\s+(?:columns?\s+for\s+)?([^.]+)\s+in\s+(?:the\s+)?table\<close>
\<close>

definition table_columns_patterns :: "regex list" where
  "table_columns_patterns =
    [seqs [alts [Lit ''table'', plural ''column''], plus ws,
           alts [Lit ''showing'', Lit ''with'', Lit ''for'', Lit ''displaying''], plus ws,
           Group 1 (plus not_dot)],
     seqs [alts [Lit ''show'', Lit ''display''], plus ws,
           opt (seqs [plural ''column'', plus ws, Lit ''for'', plus ws]),
           Group 1 (plus not_dot), plus ws, Lit ''in'', plus ws,
           opt (Seq (Lit ''the'') (plus ws)), Lit ''table'']]"

text \<open>
  The patterns written inside the extracting functions.
  \<^verbatim>\<open>(?:date|meeting)\s*:\s*(\d{4}-\d{2}-\d{2}|\d{1,2}/\d{1,2}/\d{4})\<close>
  \<^verbatim>\<open>(?:attendees|participants)\s*:\s*([^\n]+)\<close>
  \<^verbatim>\<open>add\s+(?:a\s+|an\s+)?(\w+)\<close>
\<close>

definition date_pattern :: regex where
  "date_pattern =
     seqs [alts [Lit ''date'', Lit ''meeting''], star ws, Lit '':'', star ws,
           Group 1 (alts [seqs [times 4 4 digit, Lit ''-'', times 2 2 digit, Lit ''-'', times 2 2 digit],
                          seqs [times 1 2 digit, Lit ''/'', times 1 2 digit, Lit ''/'', times 4 4 digit]])]"

definition attendees_pattern :: regex where
  "attendees_pattern =
     seqs [alts [Lit ''attendees'', Lit ''participants''], star ws, Lit '':'', star ws,
           Group 1 (plus (Cls True [CChar (CHR 0x0A)]))]"

definition entity_pattern :: regex where
  "entity_pattern =
     seqs [Lit ''add'', plus ws, opt (alts [Seq (Lit ''a'') (plus ws), Seq (Lit ''an'') (plus ws)]),
           Group 1 (plus word_char)]"

text \<open>
  \<^verbatim>\<open>fields?\s+(?:for|include)\s+([^.]+)\<close>
  \<^verbatim>\<open>(?:need|require|capture)\s+([^.]+?)\s*[-...]\s*(?:all\s+)?(?:required|mandatory|optional)\<close>
  The class of the second pattern holds the hyphen and two dashes that are not ASCII; the
  hyphen is the one character of the class in the alphabet of the model.
\<close>

definition field_patterns :: "regex list" where
  "field_patterns =
    [seqs [plural ''field'', plus ws, alts [Lit ''for'', Lit ''include''], plus ws,
           Group 1 (plus not_dot)],
     seqs [alts [Lit ''need'', Lit ''require'', Lit ''capture''], plus ws,
           Group 1 (lazy_plus not_dot), star ws, Cls False [CChar CHR ''-''], star ws,
           opt (Seq (Lit ''all'') (plus ws)),
           alts [Lit ''required'', Lit ''mandatory'', Lit ''optional'']]]"

text \<open>
  \<^verbatim>\<open>(?:action item|todo|task)\s*:\s*([^.]+)\<close>
  \<^verbatim>\<open>([A-Z][^.]+?)\s+(?:will|should|needs? to)\s+([^.]+)\s+by\s+(\d{1,2}/\d{1,2}|\w+ \d{1,2})\<close>
\<close>

definition action_item_patterns :: "regex list" where
  "action_item_patterns =
    [seqs [alts [Lit ''action item'', Lit ''todo'', Lit ''task''], star ws, Lit '':'', star ws,
           Group 1 (plus not_dot)],
     seqs [Group 1 (Seq (Cls False [CRange CHR ''A'' CHR ''Z'']) (lazy_plus not_dot)), plus ws,
           alts [Lit ''will'', Lit ''should'', seqs [plural ''need'', Lit '' to'']], plus ws,
           Group 2 (plus not_dot), plus ws, Lit ''by'', plus ws,
           Group 3 (alts [seqs [times 1 2 digit, Lit ''/'', times 1 2 digit],
                          seqs [plus word_char, Lit '' '', times 1 2 digit]])]]"

text \<open>
  The four categories of the table that no method reads.
  \<^verbatim>\<open>(users?|nurses?|doctors?|admins?|staff)\s+(?:should\s+be\s+able\s+to|need\s+to|must|can)\s+([^.]+)\<close>
  \<^verbatim>\<open>(?:the\s+system|it)\s+(?:should|must|needs?\s+to)\s+(?:allow|enable|let)\s+(?:users?|nurses?|doctors?)\s+to\s+([^.]+)\<close>
\<close>

definition user_story_patterns :: "regex list" where
  "user_story_patterns =
    [seqs [Group 1 (alts [plural ''user'', plural ''nurse'', plural ''doctor'', plural ''admin'',
                          Lit ''staff'']),
           plus ws,
           alts [seqs [Lit ''should'', plus ws, Lit ''be'', plus ws, Lit ''able'', plus ws, Lit ''to''],
                 seqs [Lit ''need'', plus ws, Lit ''to''], Lit ''must'', Lit ''can''],
           plus ws, Group 2 (plus not_dot)],
     seqs [alts [seqs [Lit ''the'', plus ws, Lit ''system''], Lit ''it''], plus ws,
           alts [Lit ''should'', Lit ''must'', seqs [plural ''need'', plus ws, Lit ''to'']], plus ws,
           alts [Lit ''allow'', Lit ''enable'', Lit ''let''], plus ws,
           alts [plural ''user'', plural ''nurse'', plural ''doctor''], plus ws, Lit ''to'', plus ws,
           Group 1 (plus not_dot)]]"

text \<open>
  \<^verbatim>\<open>(?:fields?\s+(?:for|include)|need|require|capture)\s+([^.]+?)\s*[-...]\s*(all\s+)?(?:required|mandatory|optional)\<close>
  \<^verbatim>\<open>with\s+fields?\s+(?:for\s+)?([^.]+)\<close>
  The class written \<open>[-...]\<close> here holds the hyphen, the en dash and the em dash; the two
  dashes lie beyond the characters of the model, which leaves the hyphen.
\<close>

definition field_spec_patterns :: "regex list" where
  "field_spec_patterns =
    [seqs [alts [seqs [plural ''field'', plus ws, alts [Lit ''for'', Lit ''include'']],
                 Lit ''need'', Lit ''require'', Lit ''capture''],
           plus ws, Group 1 (lazy_plus not_dot), star ws, Cls False [CChar CHR ''-''], star ws,
           opt (Group 2 (Seq (Lit ''all'') (plus ws))),
           alts [Lit ''required'', Lit ''mandatory'', Lit ''optional'']],
     seqs [Lit ''with'', plus ws, plural ''field'', plus ws, opt (Seq (Lit ''for'') (plus ws)),
           Group 1 (plus not_dot)]]"

text \<open>
  \<^verbatim>\<open>(?:priority\s+is\s+|)(?:highest|high|medium|low|critical)\<close>
  \<^verbatim>\<open>(?:critical|urgent|important)\s+for\<close>
\<close>

definition priority_patterns :: "regex list" where
  "priority_patterns =
    [seqs [alts [seqs [Lit ''priority'', plus ws, Lit ''is'', plus ws], Lit []],
           alts [Lit ''highest'', Lit ''high'', Lit ''medium'', Lit ''low'', Lit ''critical'']],
     seqs [alts [Lit ''critical'', Lit ''urgent'', Lit ''important''], plus ws, Lit ''for'']]"

text \<open>
  \<^verbatim>\<open>(?:should\s+not\s+allow|don't\s+allow|prevent|block)\s+([^.]+)\<close>
  \<^verbatim>\<open>(?:required\s+when|only\s+if|mandatory\s+when)\s+([^.]+)\<close>
\<close>

definition validation_patterns :: "regex list" where
  "validation_patterns =
    [seqs [alts [seqs [Lit ''should'', plus ws, Lit ''not'', plus ws, Lit ''allow''],
                 seqs [Lit (''don'' @ [CHR 0x27] @ ''t''), plus ws, Lit ''allow''],
                 Lit ''prevent'', Lit ''block''],
           plus ws, Group 1 (plus not_dot)],
     seqs [alts [seqs [Lit ''required'', plus ws, Lit ''when''],
                 seqs [Lit ''only'', plus ws, Lit ''if''],
                 seqs [Lit ''mandatory'', plus ws, Lit ''when'']],
           plus ws, Group 1 (plus not_dot)]]"

text \<open>
  The object. A \<open>TranscriptProcessor\<close> has one attribute, \<open>extraction_patterns\<close>,
  the dictionary that \<open>_load_extraction_patterns\<close> returns; the field \<open>pat_k\<close> of the
  record is its key \<open>k\<close>. \<open>TranscriptProcessor\<close> is the object that \<open>__init__\<close>
  leaves. The methods that read the attribute take the object as \<open>self\<close>; the other
  methods of the class read nothing of it and are modelled without it.
\<close>

record pattern_table =
  pat_epic_name :: "regex list"
  pat_user_story :: "regex list"
  pat_field_spec :: "regex list"
  pat_table_columns :: "regex list"
  pat_tabs :: "regex list"
  pat_priority :: "regex list"
  pat_rbac :: "regex list"
  pat_validation :: "regex list"

record processor =
  extraction_patterns :: pattern_table

definition load_extraction_patterns :: pattern_table where
  "load_extraction_patterns =
     \<lparr>pat_epic_name = epic_name_patterns, pat_user_story = user_story_patterns,
      pat_field_spec = field_spec_patterns, pat_table_columns = table_columns_patterns,
      pat_tabs = tabs_patterns, pat_priority = priority_patterns, pat_rbac = rbac_patterns,
      pat_validation = validation_patterns\<rparr>"

definition TranscriptProcessor :: processor where
  "TranscriptProcessor = \<lparr>extraction_patterns = load_extraction_patterns\<rparr>"

text \<open>
  The separators given to \<open>re.split\<close>, which is called without flags:
  \<^verbatim>\<open>[,;]|\s+and\s+\<close>, \<^verbatim>\<open>[,;]\<close> and \<^verbatim>\<open>[.!?]\<close>.
\<close>

definition list_separator :: regex where
  "list_separator = Alt (Cls False [CChar CHR '','', CChar CHR '';''])
                        (seqs [plus ws, Lit ''and'', plus ws])"

definition comma_separator :: regex where
  "comma_separator = Cls False [CChar CHR '','', CChar CHR '';'']"

definition sentence_separator :: regex where
  "sentence_separator = Cls False [CChar CHR ''.'', CChar CHR ''!'', CChar CHR ''?'']"

text \<open>The two nested loops \<open>for pattern in patterns: for match in re.finditer(pattern, text, re.IGNORECASE)\<close>.\<close>

definition matches_of :: "regex list \<Rightarrow> string \<Rightarrow> caps list" where
  "matches_of ps text = concat (map (\<lambda>p. finditer True p text) ps)"

text \<open>\<open>[t.strip() for t in re.split(r'[,;]|\s+and\s+', s) if t.strip()]\<close>\<close>

definition split_names :: "string \<Rightarrow> string list" where
  "split_names s = map strip (filter (\<lambda>t. strip t \<noteq> []) (re_split list_separator s))"

section \<open>The requirement document\<close>

text \<open>
  The dictionaries the processor builds, as records; a key that a dictionary may lack is
  an \<open>option\<close>. \<open>ticket_type\<close> and the priorities are strings, as in the source.
  The field \<open>epic_priority\<close> is the key \<open>priority\<close> of an epic, \<open>f_name\<close>,
  \<open>f_type\<close> and \<open>f_mandatory\<close> are the keys \<open>name\<close>, \<open>type\<close> and
  \<open>mandatory\<close> of a field, \<open>field_specs\<close> is the key \<open>fields\<close> of the
  details, and \<open>clar_context\<close> is the key \<open>context\<close>.
  The RBAC dictionary is an association list in insertion order, with distinct keys.
\<close>

record field_spec =
  f_name :: string
  f_type :: string
  f_mandatory :: bool

record rbac_entry =
  permissions :: "string list"
  actions :: "string list"

type_synonym rbac_map = "(string \<times> rbac_entry) list"

record details =
  rbac :: "rbac_map option"
  tab_name :: "string option"
  columns :: "string list option"
  entity_name :: "string option"
  field_specs :: "field_spec list option"

record ticket =
  ticket_type :: string
  summary :: string
  priority :: string
  details :: "details option"

record epic =
  epic_name :: string
  epic_description :: string
  epic_priority :: string
  scope :: string
  tabs :: "string list"
  tickets :: "ticket list"

record metadata =
  date :: string
  attendees :: "string list"
  duration :: string
  topics :: "string list"

record action_item =
  item :: string
  owner :: string
  due_date :: string

record clarification =
  question :: string
  clar_context :: string

record document =
  meeting_metadata :: metadata
  epics :: "epic list"
  action_items :: "action_item list"
  clarifications_needed :: "clarification list"

definition no_details :: details where
  "no_details = \<lparr>rbac = None, tab_name = None, columns = None, entity_name = None, field_specs = None\<rparr>"

section \<open>Errors\<close>

text \<open>
  \<open>_is_mandatory\<close> builds a pattern from a field name at run time and hands it to
  \<open>re.search\<close>, which raises \<open>re.error\<close> when the text is not a well-formed pattern.
  That call is the parameter \<open>dyn\<close> of the model: \<open>dyn pattern text\<close> is group 1 of
  the first match, \<open>None\<close> without a match, and \<open>Inl\<close> when the call raises. Every
  other pattern is a constant of the program.
\<close>

datatype error = ReError string

type_synonym dyn_search = "string \<Rightarrow> string \<Rightarrow> error + string option"

text \<open>A loop whose body may raise: the first error ends it.\<close>

fun collect :: "('a \<Rightarrow> error + 'b) \<Rightarrow> 'a list \<Rightarrow> error + 'b list" where
  "collect f [] = Inr []"
| "collect f (x # xs) =
     (case f x of
        Inl e \<Rightarrow> Inl e
      | Inr y \<Rightarrow> (case collect f xs of Inl e \<Rightarrow> Inl e | Inr ys \<Rightarrow> Inr (y # ys)))"

section \<open>Metadata extractor and epic segmenter\<close>

text \<open>\<open>now\<close> is \<open>datetime.now().strftime("%Y-%m-%d")\<close>.\<close>

definition extract_metadata :: "string \<Rightarrow> string \<Rightarrow> metadata" where
  "extract_metadata now text =
     (let md = \<lparr>date = now, attendees = [], duration = ''Unknown'', topics = []\<rparr>;
          md = (case re_search True date_pattern text of
                  None \<Rightarrow> md
                | Some m \<Rightarrow> md\<lparr>date := group m 1\<rparr>);
          md = (case re_search True attendees_pattern text of
                  None \<Rightarrow> md
                | Some m \<Rightarrow> md\<lparr>attendees :=
                    map strip (filter (\<lambda>a. strip a \<noteq> []) (re_split comma_separator (group m 1)))\<rparr>)
      in md)"

text \<open>The body of the loop of \<open>_extract_epics\<close>.\<close>

definition add_epic :: "string list \<Rightarrow> caps \<Rightarrow> string list" where
  "add_epic es m =
     (let nm = strip (group m 1)
      in if nm \<noteq> [] \<and> nm \<notin> set es then es @ [nm] else es)"

definition extract_epics :: "processor \<Rightarrow> string \<Rightarrow> string list" where
  "extract_epics self text =
     (let es = foldl add_epic [] (matches_of (pat_epic_name (extraction_patterns self)) text)
      in if es \<noteq> [] then es else [''Unnamed Feature''])"

section \<open>Requirement extractor\<close>

fun first_description :: "string \<Rightarrow> string list \<Rightarrow> string option" where
  "first_description nm [] = None"
| "first_description nm (sentence # rest) =
     (if py_in (lower nm) (lower sentence) \<and> 20 < length (strip sentence)
      then Some (strip sentence)
      else first_description nm rest)"

definition extract_epic_description :: "string \<Rightarrow> string \<Rightarrow> string" where
  "extract_epic_description text nm =
     (case first_description nm (re_split sentence_separator text) of
        Some description \<Rightarrow> description
      | None \<Rightarrow> ''Feature for '' @ nm)"

definition extract_priority :: "string \<Rightarrow> string" where
  "extract_priority text =
     (let text_lower = lower text
      in if any_in [''highest'', ''critical'', ''urgent''] text_lower then ''Highest''
         else if py_in ''high priority'' text_lower \<or> py_in ''important'' text_lower then ''High''
         else if py_in ''low priority'' text_lower then ''Low''
         else ''Medium'')"

definition extract_tabs :: "processor \<Rightarrow> string \<Rightarrow> string list" where
  "extract_tabs self text =
     concat (map (\<lambda>m. split_names (group m 1))
                 (matches_of (pat_tabs (extraction_patterns self)) text))"

definition has_rbac_requirements :: "string \<Rightarrow> bool" where
  "has_rbac_requirements text =
     any_in [''permission'', ''access'', ''role'', ''only'', ''can view'', ''can edit'', ''restricted'']
       (lower text)"

text \<open>
  The body of the loop of \<open>_extract_rbac\<close>. Both patterns have two groups, so
  \<open>len(match.groups()) > 1\<close> holds and the action is group 2.
\<close>

definition add_rbac :: "rbac_map \<Rightarrow> caps \<Rightarrow> rbac_map" where
  "add_rbac rb m =
     (let role = capitalize (group m 1);
          action = group m 2;
          rb = (if role \<notin> fst ` set rb then rb @ [(role, \<lparr>permissions = [], actions = []\<rparr>)] else rb)
      in map (\<lambda>(k, v). if k = role then (k, v\<lparr>actions := actions v @ [strip action]\<rparr>) else (k, v)) rb)"

definition extract_rbac :: "processor \<Rightarrow> string \<Rightarrow> rbac_map" where
  "extract_rbac self text =
     foldl add_rbac [] (matches_of (pat_rbac (extraction_patterns self)) text)"

text \<open>The second argument of \<open>_extract_columns\<close> is the tab name, \<open>None\<close> by default.\<close>

definition extract_columns :: "processor \<Rightarrow> string \<Rightarrow> string option \<Rightarrow> string list" where
  "extract_columns self text tab =
     (let cols = concat (map (\<lambda>m. split_names (group m 1))
                             (matches_of (pat_table_columns (extraction_patterns self)) text))
      in if cols \<noteq> [] then cols else [''<Column 1>'', ''<Column 2>'', ''<Column 3>''])"

definition extract_entity_name :: "string \<Rightarrow> string \<Rightarrow> string" where
  "extract_entity_name text nm =
     (case re_search True entity_pattern text of
        Some m \<Rightarrow> lower (group m 1)
      | None \<Rightarrow> replace_space (lower nm))"

definition guess_field_type :: "string \<Rightarrow> string" where
  "guess_field_type field_name =
     (let field_lower = lower field_name
      in if py_in ''date'' field_lower then ''Date picker''
         else if py_in ''name'' field_lower then ''Text field''
         else if py_in ''email'' field_lower then ''Email field''
         else if py_in ''phone'' field_lower then ''Phone field''
         else if py_in ''note'' field_lower \<or> py_in ''comment'' field_lower
                 \<or> py_in ''instruction'' field_lower then ''Large text field''
         else if py_in ''status'' field_lower \<or> py_in ''type'' field_lower
                 \<or> py_in ''frequency'' field_lower then ''Dropdown''
         else ''Text field'')"

definition is_mandatory :: "dyn_search \<Rightarrow> string \<Rightarrow> string \<Rightarrow> error + bool" where
  "is_mandatory dyn text field_name =
     (case dyn (field_name @ ''[^.]*?(required|mandatory|optional)'') text of
        Inl e \<Rightarrow> Inl e
      | Inr (Some g) \<Rightarrow> Inr (lower g \<in> set [''required'', ''mandatory''])
      | Inr None \<Rightarrow> Inr True)"

definition make_field :: "dyn_search \<Rightarrow> string \<Rightarrow> string \<Rightarrow> error + field_spec" where
  "make_field dyn text field_name =
     (case is_mandatory dyn text field_name of
        Inl e \<Rightarrow> Inl e
      | Inr b \<Rightarrow> Inr \<lparr>f_name = capitalize field_name, f_type = guess_field_type field_name,
                      f_mandatory = b\<rparr>)"

definition extract_fields :: "dyn_search \<Rightarrow> string \<Rightarrow> error + field_spec list" where
  "extract_fields dyn text =
     (let field_names =
            filter (\<lambda>n. n \<noteq> [] \<and> 2 < length n)
              (concat (map (\<lambda>m. map strip (re_split list_separator (group m 1)))
                           (matches_of field_patterns text)))
      in case collect (make_field dyn text) field_names of
           Inl e \<Rightarrow> Inl e
         | Inr fs \<Rightarrow>
             Inr (if fs \<noteq> [] then fs
                  else [\<lparr>f_name = ''<Field 1>'', f_type = ''Text field'', f_mandatory = True\<rparr>]))"

definition extract_action_items :: "string \<Rightarrow> action_item list" where
  "extract_action_items text =
     map (\<lambda>m. \<lparr>item = strip (group m 0), owner = ''TBD'', due_date = ''TBD''\<rparr>)
         (matches_of action_item_patterns text)"

section \<open>Ticket synthesizer\<close>

text \<open>The body of the loop over the tabs of the epic.\<close>

definition tab_tickets :: "processor \<Rightarrow> string \<Rightarrow> ticket list \<Rightarrow> string \<Rightarrow> ticket list" where
  "tab_tickets self text ts tab =
     (let ts = ts @ [\<lparr>ticket_type = ''view_table_data'',
                      summary = ''User should be able to access and view data in the table of '' @ [CHR 0x27] @ tab @ [CHR 0x27] @ '' tab'',
                      priority = ''High'',
                      details = Some (no_details\<lparr>tab_name := Some tab,
                                                 columns := Some (extract_columns self text (Some tab))\<rparr>)\<rparr>]
      in if any_in [''search'', ''filter'', ''find''] (lower text)
         then ts @ [\<lparr>ticket_type = ''search_filter'',
                      summary = ''User should be able to search and filter data in '' @ [CHR 0x27] @ tab @ [CHR 0x27] @ '' tab'',
                      priority = ''High'',
                      details = Some (no_details\<lparr>tab_name := Some tab\<rparr>)\<rparr>]
         else ts)"

definition generate_tickets_from_text ::
    "processor \<Rightarrow> dyn_search \<Rightarrow> string \<Rightarrow> string \<Rightarrow> epic \<Rightarrow> error + ticket list" where
  "generate_tickets_from_text self dyn text nm epic_data =
     (let ts = [\<lparr>ticket_type = ''backend_architecture'',
                  summary = ''BE: Implement backend architecture of '' @ [CHR 0x22] @ nm @ [CHR 0x22],
                  priority = ''High'', details = None\<rparr>];
          ts = (if has_rbac_requirements text
                then ts @ [\<lparr>ticket_type = ''rbac_permissions'',
                             summary = ''Adding RBAC permissions related to '' @ [CHR 0x22] @ nm @ [CHR 0x22],
                             priority = ''High'',
                             details = Some (no_details\<lparr>rbac := Some (extract_rbac self text)\<rparr>)\<rparr>]
                else ts);
          ts = (if any_in [''menu'', ''navigation'', ''nav bar'', ''sidebar''] (lower text)
                then ts @ [\<lparr>ticket_type = ''nav_menu'',
                             summary = ''FE: User should be able to view a new menu '' @ [CHR 0x22] @ nm @ [CHR 0x22]
                                       @ '' under '' @ [CHR 0x22] @ ''Clinical'' @ [CHR 0x22] @ '' in nav panel'',
                             priority = ''High'', details = None\<rparr>]
                else ts);
          ts = foldl (tab_tickets self text) ts (tabs epic_data)
      in if any_in [''add'', ''create'', ''new'', ''form''] (lower text)
         then (let en = extract_entity_name text nm
               in case extract_fields dyn text of
                    Inl e \<Rightarrow> Inl e
                  | Inr fs \<Rightarrow>
                      Inr (ts @ [\<lparr>ticket_type = ''add_entity'',
                                   summary = ''User should be able to add a '' @ en,
                                   priority = ''High'',
                                   details = Some (no_details\<lparr>entity_name := Some en,
                                                              field_specs := Some fs\<rparr>)\<rparr>]))
         else Inr ts)"

definition process_epic :: "processor \<Rightarrow> dyn_search \<Rightarrow> string \<Rightarrow> string \<Rightarrow> error + epic" where
  "process_epic self dyn text nm =
     (let epic_data = \<lparr>epic_name = nm,
                       epic_description = extract_epic_description text nm,
                       epic_priority = extract_priority text,
                       scope = ''facility-specific'',
                       tabs = extract_tabs self text,
                       tickets = []\<rparr>
      in case generate_tickets_from_text self dyn text nm epic_data of
           Inl e \<Rightarrow> Inl e
         | Inr ts \<Rightarrow> Inr (epic_data\<lparr>tickets := ts\<rparr>))"

section \<open>Clarification auditor\<close>

text \<open>
  \<open>ticket.get("details", {}).get("fields", [])\<close> and
  \<open>ticket.get("details", {}).get("columns", [])\<close>.
\<close>

definition ticket_fields :: "ticket \<Rightarrow> field_spec list" where
  "ticket_fields t =
     (case details t of None \<Rightarrow> [] | Some d \<Rightarrow> (case field_specs d of None \<Rightarrow> [] | Some fs \<Rightarrow> fs))"

definition ticket_columns :: "ticket \<Rightarrow> string list" where
  "ticket_columns t =
     (case details t of None \<Rightarrow> [] | Some d \<Rightarrow> (case columns d of None \<Rightarrow> [] | Some cs \<Rightarrow> cs))"

text \<open>The body of the inner loop of \<open>_identify_clarifications\<close>: two independent tests.\<close>

definition ticket_clarifications :: "ticket \<Rightarrow> clarification list" where
  "ticket_clarifications t =
     (if ticket_type t = ''add_entity'' \<and> list_ex (\<lambda>f. py_in ''<'' (f_name f)) (ticket_fields t)
      then [\<lparr>question = ''Field specifications incomplete for '' @ summary t,
              clar_context = ''Field names or types contain placeholders''\<rparr>]
      else [])
     @
     (if ticket_type t = ''view_table_data'' \<and> list_ex (\<lambda>col. py_in ''<'' col) (ticket_columns t)
      then [\<lparr>question = ''Column specifications incomplete for '' @ summary t,
              clar_context = ''Column names contain placeholders''\<rparr>]
      else [])"

definition identify_clarifications :: "document \<Rightarrow> clarification list" where
  "identify_clarifications st =
     concat (map (\<lambda>e. concat (map ticket_clarifications (tickets e))) (epics st))"

section \<open>The pipeline\<close>

text \<open>
  \<open>process_transcript(transcript_text, metadata=None)\<close>. The clock is read by
  \<open>_extract_metadata\<close> only, so only when no metadata is passed in; an empty
  dictionary counts as none there, and the record \<open>metadata\<close> is never empty.
\<close>

definition process_transcript ::
    "processor \<Rightarrow> dyn_search \<Rightarrow> string \<Rightarrow> string \<Rightarrow> metadata option \<Rightarrow> error + document" where
  "process_transcript self dyn now text md =
     (let st = \<lparr>meeting_metadata = (case md of Some m \<Rightarrow> m | None \<Rightarrow> extract_metadata now text),
                epics = [], action_items = [], clarifications_needed = []\<rparr>
      in case collect (process_epic self dyn text) (extract_epics self text) of
           Inl e \<Rightarrow> Inl e
         | Inr es \<Rightarrow>
             (let st = st\<lparr>epics := es\<rparr>;
                  st = st\<lparr>action_items := extract_action_items text\<rparr>;
                  st = st\<lparr>clarifications_needed := identify_clarifications st\<rparr>
              in Inr st))"



section \<open>The summary templates of the ticket generator\<close>

text \<open>
  \<open>TicketGenerator.generate_summary\<close> for the ticket type \<open>add_entity\<close>, without a
  scope: \<open>entity_name or 'record'\<close> and \<open>entity_name or 'Add'\<close> take the default when
  the name is \<open>None\<close> or empty. The transcript processor does not call it.
\<close>

definition generate_summary_add_entity :: "string option \<Rightarrow> string" where
  "generate_summary_add_entity en =
     ''User should be able to add a '' @ (case en of None \<Rightarrow> ''record'' | Some n \<Rightarrow> if n = [] then ''record'' else n)
       @ '' by clicking on '' @ [CHR 0x22] @ ''+ '' @ (case en of None \<Rightarrow> ''Add'' | Some n \<Rightarrow> if n = [] then ''Add'' else n)
       @ [CHR 0x22] @ '' CTA''"

section \<open>Measures of a pattern\<close>

text \<open>
  Properties of a pattern that the proofs about \<open>finditer\<close> use: \<open>min_len r\<close>
  is a lower bound of the length of a match of \<open>r\<close>, and \<open>stops_at ic d r\<close> says that no
  literal and no class of \<open>r\<close> accepts the character \<open>d\<close>, so that no match of
  \<open>r\<close> contains it.
\<close>

fun min_len :: "regex \<Rightarrow> nat" where
  "min_len (Lit w) = length w"
| "min_len (Cls neg items) = 1"
| "min_len (Seq a b) = min_len a + min_len b"
| "min_len (Alt a b) = min (min_len a) (min_len b)"
| "min_len (Rep greedy lo hi r) = lo * min_len r"
| "min_len (Group n r) = min_len r"

fun stops_at :: "bool \<Rightarrow> char \<Rightarrow> regex \<Rightarrow> bool" where
  "stops_at ic d (Lit w) = list_all (\<lambda>a. \<not> (if ic then lower_char a = lower_char d else a = d)) w"
| "stops_at ic d (Cls neg items) = (\<not> cls_match ic neg items d)"
| "stops_at ic d (Seq a b) = (stops_at ic d a \<and> stops_at ic d b)"
| "stops_at ic d (Alt a b) = (stops_at ic d a \<and> stops_at ic d b)"
| "stops_at ic d (Rep greedy lo hi r) = stops_at ic d r"
| "stops_at ic d (Group n r) = stops_at ic d r"

text \<open>
  \<open>binds n r\<close>: group \<open>n\<close> lies on every path through \<open>r\<close>, so every match of
  \<open>r\<close> binds it.
\<close>

fun binds :: "nat \<Rightarrow> regex \<Rightarrow> bool" where
  "binds n (Lit w) = False"
| "binds n (Cls neg items) = False"
| "binds n (Seq a b) = (binds n a \<or> binds n b)"
| "binds n (Alt a b) = (binds n a \<and> binds n b)"
| "binds n (Rep greedy lo hi r) = (0 < lo \<and> binds n r)"
| "binds n (Group k r) = (k = n \<or> binds n r)"

text \<open>
  \<open>no_match_in r pre rest\<close>: in the text \<open>pre @ rest\<close>, searched with
  \<open>re.IGNORECASE\<close>, the pattern \<open>r\<close> has no match that starts at a position of
  \<open>pre\<close>. A match that starts in \<open>pre\<close> and runs on into \<open>rest\<close> counts.
\<close>

fun no_match_in :: "regex \<Rightarrow> string \<Rightarrow> string \<Rightarrow> bool" where
  "no_match_in r [] rest = True"
| "no_match_in r (x # xs) rest = (rmatch True r (x # xs @ rest) [] = [] \<and> no_match_in r xs rest)"

section \<open>A sample run\<close>

text \<open>
  A transcript without an epic name, with two tabs, a creation keyword and two priority
  keywords, and the document the pipeline returns for it when the clock reads
  \<open>sample_clock\<close>. \<open>no_dyn\<close> is a search that finds nothing; the sample has no field
  specification, so the pipeline never calls it.
\<close>

definition no_dyn :: dyn_search where
  "no_dyn pattern text = Inr None"

definition sample_clock :: string where
  "sample_clock = ''2026-11-04''"

definition sample_transcript :: string where
  "sample_transcript = ''critical low priority. tabs: A, B. new''"

definition sample_view_ticket :: "string \<Rightarrow> ticket" where
  "sample_view_ticket tab =
     \<lparr>ticket_type = ''view_table_data'',
      summary = ''User should be able to access and view data in the table of '' @ [CHR 0x27] @ tab @ [CHR 0x27] @ '' tab'',
      priority = ''High'',
      details = Some (no_details\<lparr>tab_name := Some tab,
                        columns := Some [''<Column 1>'', ''<Column 2>'', ''<Column 3>'']\<rparr>)\<rparr>"

definition sample_add_ticket :: ticket where
  "sample_add_ticket =
     \<lparr>ticket_type = ''add_entity'',
      summary = ''User should be able to add a unnamed_feature'',
      priority = ''High'',
      details = Some (no_details\<lparr>entity_name := Some ''unnamed_feature'',
                        field_specs := Some [\<lparr>f_name = ''<Field 1>'', f_type = ''Text field'', f_mandatory = True\<rparr>]\<rparr>)\<rparr>"

definition sample_epic :: epic where
  "sample_epic =
     \<lparr>epic_name = ''Unnamed Feature'',
      epic_description = ''Feature for Unnamed Feature'',
      epic_priority = ''Highest'',
      scope = ''facility-specific'',
      tabs = [''A'', ''B''],
      tickets =
        [\<lparr>ticket_type = ''backend_architecture'',
          summary = ''BE: Implement backend architecture of '' @ [CHR 0x22] @ ''Unnamed Feature'' @ [CHR 0x22],
          priority = ''High'', details = None\<rparr>,
         sample_view_ticket ''A'', sample_view_ticket ''B'', sample_add_ticket]\<rparr>"

definition sample_document :: document where
  "sample_document =
     \<lparr>meeting_metadata = \<lparr>date = sample_clock, attendees = [], duration = ''Unknown'', topics = []\<rparr>,
      epics = [sample_epic],
      action_items = [],
      clarifications_needed =
        [\<lparr>question = ''Column specifications incomplete for '' @ summary (sample_view_ticket ''A''),
          clar_context = ''Column names contain placeholders''\<rparr>,
         \<lparr>question = ''Column specifications incomplete for '' @ summary (sample_view_ticket ''B''),
          clar_context = ''Column names contain placeholders''\<rparr>,
         \<lparr>question = ''Field specifications incomplete for '' @ summary sample_add_ticket,
          clar_context = ''Field names or types contain placeholders''\<rparr>]\<rparr>"

section \<open>Evaluating the character tests\<close>

text \<open>
  The character tests compare character codes. On a character given by its eight bits
  they reduce to propositional formulas, which is how concrete transcripts are evaluated.
\<close>

lemma of_char_bits:
  "(of_char (Char b0 b1 b2 b3 b4 b5 b6 b7) :: nat) =
     of_bool b0 + 2 * (of_bool b1 + 2 * (of_bool b2 + 2 * (of_bool b3 + 2 * (of_bool b4 +
       2 * (of_bool b5 + 2 * (of_bool b6 + 2 * of_bool b7))))))"
  by simp

lemma in_range_upper_bits:
  "in_range CHR ''A'' CHR ''Z'' (Char b0 b1 b2 b3 b4 b5 b6 b7) =
     (\<not> b7 \<and> b6 \<and> \<not> b5 \<and> (b0 \<or> b1 \<or> b2 \<or> b3 \<or> b4) \<and> \<not> (b4 \<and> b3 \<and> (b2 \<or> (b1 \<and> b0))))"
  unfolding in_range_def of_char_bits
  by (cases b0; cases b1; cases b2; cases b3; cases b4; cases b5; cases b6; cases b7; simp)

lemma in_range_lower_bits:
  "in_range CHR ''a'' CHR ''z'' (Char b0 b1 b2 b3 b4 b5 b6 b7) =
     (\<not> b7 \<and> b6 \<and> b5 \<and> (b0 \<or> b1 \<or> b2 \<or> b3 \<or> b4) \<and> \<not> (b4 \<and> b3 \<and> (b2 \<or> (b1 \<and> b0))))"
  unfolding in_range_def of_char_bits
  by (cases b0; cases b1; cases b2; cases b3; cases b4; cases b5; cases b6; cases b7; simp)

lemma py_isdigit_bits:
  "py_isdigit (Char b0 b1 b2 b3 b4 b5 b6 b7) =
     (\<not> b7 \<and> \<not> b6 \<and> b5 \<and> b4 \<and> \<not> (b3 \<and> (b2 \<or> b1)))"
  unfolding py_isdigit_def in_range_def of_char_bits
  by (cases b0; cases b1; cases b2; cases b3; cases b4; cases b5; cases b6; cases b7; simp)

lemma py_isspace_bits:
  "py_isspace (Char b0 b1 b2 b3 b4 b5 b6 b7) =
     (\<not> b6 \<and>
      (if b7 then \<not> b4 \<and> \<not> b3 \<and> \<not> b1 \<and> (if b5 then \<not> b2 \<and> \<not> b0 else b2 \<and> b0)
       else if b5 then \<not> b4 \<and> \<not> b3 \<and> \<not> b2 \<and> \<not> b1 \<and> \<not> b0
       else if b4 then b3 \<and> b2
       else b3 \<and> (if b2 then \<not> b1 else b1 \<or> b0)))"
  unfolding py_isspace_def in_range_def of_char_bits
  by (cases b0; cases b1; cases b2; cases b3; cases b4; cases b5; cases b6; cases b7; simp)

lemma lower_char_bits:
  "lower_char (Char b0 b1 b2 b3 b4 b5 b6 b7) =
     (if \<not> b7 \<and> b6 \<and> \<not> b5 \<and> (b0 \<or> b1 \<or> b2 \<or> b3 \<or> b4) \<and> \<not> (b4 \<and> b3 \<and> (b2 \<or> (b1 \<and> b0)))
      then Char b0 b1 b2 b3 b4 True b6 b7 else Char b0 b1 b2 b3 b4 b5 b6 b7)"
  unfolding lower_char_def in_range_upper_bits
  by (cases b0; cases b1; cases b2; cases b3; cases b4; cases b5; cases b6; cases b7;
      simp add: char_of_def bit_Suc_0_iff)

lemma upper_char_bits:
  "upper_char (Char b0 b1 b2 b3 b4 b5 b6 b7) =
     (if \<not> b7 \<and> b6 \<and> b5 \<and> (b0 \<or> b1 \<or> b2 \<or> b3 \<or> b4) \<and> \<not> (b4 \<and> b3 \<and> (b2 \<or> (b1 \<and> b0)))
      then Char b0 b1 b2 b3 b4 False b6 b7 else Char b0 b1 b2 b3 b4 b5 b6 b7)"
  unfolding upper_char_def in_range_lower_bits
  by (cases b0; cases b1; cases b2; cases b3; cases b4; cases b5; cases b6; cases b7;
      simp add: char_of_def bit_Suc_0_iff)

lemma py_isword_bits:
  "py_isword (Char b0 b1 b2 b3 b4 b5 b6 b7) =
     (in_range CHR ''a'' CHR ''z'' (Char b0 b1 b2 b3 b4 b5 b6 b7) \<or>
      in_range CHR ''A'' CHR ''Z'' (Char b0 b1 b2 b3 b4 b5 b6 b7) \<or>
      py_isdigit (Char b0 b1 b2 b3 b4 b5 b6 b7) \<or> Char b0 b1 b2 b3 b4 b5 b6 b7 = CHR ''_'')"
  by (simp add: py_isword_def)

declare in_range_upper_bits [code] in_range_lower_bits [code] py_isdigit_bits [code]
  py_isspace_bits [code] lower_char_bits [code] upper_char_bits [code]

lemma sample_run:
  "process_transcript TranscriptProcessor no_dyn sample_clock sample_transcript None = Inr sample_document"
  by code_simp

section \<open>Properties of the pipeline\<close>

subsection \<open>Substring test and lower case\<close>

lemma py_in_lower: "py_in w s \<Longrightarrow> py_in (lower w) (lower s)"
proof (induction s)
  case Nil
  then show ?case by (simp add: lower_def)
next
  case (Cons x xs)
  from Cons.prems have "prefix w (x # xs) \<or> py_in w xs" by simp
  then show ?case
  proof
    assume "prefix w (x # xs)"
    then have "prefix (map lower_char w) (map lower_char (x # xs))" by (rule map_mono_prefix)
    then show ?thesis by (simp add: lower_def)
  next
    assume "py_in w xs"
    then have "py_in (lower w) (lower xs)" by (rule Cons.IH)
    then show ?thesis by (simp add: lower_def)
  qed
qed

lemma py_in_prefix: "prefix w s \<Longrightarrow> py_in w s"
  by (cases s) auto

lemma py_in_append: "py_in w (a @ w @ b)"
  by (induction a) (auto intro: py_in_prefix)

subsection \<open>Loops that may raise\<close>

lemma collect_Inr_length: "collect f xs = Inr ys \<Longrightarrow> length ys = length xs"
  by (induction xs arbitrary: ys) (auto split: sum.splits)

lemma collect_Inr_member:
  "collect f xs = Inr ys \<Longrightarrow> y \<in> set ys \<Longrightarrow> \<exists>x \<in> set xs. f x = Inr y"
  by (induction xs arbitrary: ys) (auto split: sum.splits)

lemma collect_Inr_map:
  "collect f xs = Inr ys \<Longrightarrow> map Inr ys = map f xs"
  by (induction xs arbitrary: ys) (auto split: sum.splits)

subsection \<open>The shape of the pipeline's result\<close>

lemma process_transcript_epics:
  "process_transcript self dyn now text md = Inr doc \<Longrightarrow>
     collect (process_epic self dyn text) (extract_epics self text) = Inr (epics doc)"
  by (auto simp: process_transcript_def Let_def split: sum.splits)

lemma process_transcript_epic:
  assumes "process_transcript self dyn now text md = Inr doc" and "e \<in> set (epics doc)"
  shows "\<exists>nm \<in> set (extract_epics self text). process_epic self dyn text nm = Inr e"
  using collect_Inr_member [OF process_transcript_epics [OF assms(1)] assms(2)] .

lemma process_epic_Inr:
  assumes "process_epic self dyn text nm = Inr e"
  shows "epic_name e = nm" and "epic_priority e = extract_priority text"
    and "tabs e = extract_tabs self text"
    and "\<exists>ed. tabs ed = extract_tabs self text \<and> generate_tickets_from_text self dyn text nm ed = Inr (tickets e)"
proof -
  let ?ed = "\<lparr>epic_name = nm, epic_description = extract_epic_description text nm,
              epic_priority = extract_priority text, scope = ''facility-specific'',
              tabs = extract_tabs self text, tickets = []\<rparr>"
  from assms obtain ts where ts: "generate_tickets_from_text self dyn text nm ?ed = Inr ts"
    and e: "e = ?ed\<lparr>tickets := ts\<rparr>"
    by (auto simp: process_epic_def Let_def split: sum.splits)
  from e show "epic_name e = nm" and "epic_priority e = extract_priority text"
    and "tabs e = extract_tabs self text" by simp_all
  from ts e have "tabs ?ed = extract_tabs self text \<and> generate_tickets_from_text self dyn text nm ?ed = Inr (tickets e)"
    by simp
  then show "\<exists>ed. tabs ed = extract_tabs self text \<and> generate_tickets_from_text self dyn text nm ed = Inr (tickets e)"
    by blast
qed

lemma tab_tickets_append: "tab_tickets self text ts tab = ts @ tab_tickets self text [] tab"
  by (simp add: tab_tickets_def Let_def)

lemma foldl_tab_tickets:
  "foldl (tab_tickets self text) ts tbs = ts @ concat (map (tab_tickets self text []) tbs)"
proof (induction tbs arbitrary: ts)
  case Nil
  show ?case by simp
next
  case (Cons tab tbs)
  show ?case by (simp add: Cons.IH tab_tickets_append [of _ _ ts tab])
qed

lemma tab_tickets_types:
  "t \<in> set (tab_tickets self text [] tab) \<Longrightarrow>
     ticket_type t = ''view_table_data'' \<or> ticket_type t = ''search_filter''"
  by (auto simp: tab_tickets_def Let_def split: if_splits)

lemma tab_tickets_view:
  "t \<in> set (tab_tickets self text [] tab) \<Longrightarrow> ticket_type t = ''view_table_data'' \<Longrightarrow>
     details t = Some (no_details\<lparr>tab_name := Some tab, columns := Some (extract_columns self text (Some tab))\<rparr>)"
  by (auto simp: tab_tickets_def Let_def split: if_splits)

text \<open>The tickets of an epic: the backend ticket, the optional RBAC and menu tickets, the
  tickets of the tabs, and the optional add ticket.\<close>

lemma generate_tickets_shape:
  assumes "generate_tickets_from_text self dyn text nm ed = Inr ts"
  shows "\<exists>mid adds.
           ts = \<lparr>ticket_type = ''backend_architecture'',
                  summary = ''BE: Implement backend architecture of '' @ [CHR 0x22] @ nm @ [CHR 0x22],
                  priority = ''High'', details = None\<rparr>
                # mid @ concat (map (tab_tickets self text []) (tabs ed)) @ adds \<and>
           (\<forall>t \<in> set mid. ticket_type t = ''rbac_permissions'' \<or> ticket_type t = ''nav_menu'') \<and>
           (if any_in [''add'', ''create'', ''new'', ''form''] (lower text)
            then \<exists>fs. extract_fields dyn text = Inr fs \<and>
                   adds = [\<lparr>ticket_type = ''add_entity'',
                            summary = ''User should be able to add a '' @ extract_entity_name text nm,
                            priority = ''High'',
                            details = Some (no_details\<lparr>entity_name := Some (extract_entity_name text nm),
                                                       field_specs := Some fs\<rparr>)\<rparr>]
            else adds = [])"
proof -
  define mid where "mid =
     (if has_rbac_requirements text
      then [\<lparr>ticket_type = ''rbac_permissions'',
              summary = ''Adding RBAC permissions related to '' @ [CHR 0x22] @ nm @ [CHR 0x22],
              priority = ''High'',
              details = Some (no_details\<lparr>rbac := Some (extract_rbac self text)\<rparr>)\<rparr>]
      else [])
     @ (if any_in [''menu'', ''navigation'', ''nav bar'', ''sidebar''] (lower text)
        then [\<lparr>ticket_type = ''nav_menu'',
                summary = ''FE: User should be able to view a new menu '' @ [CHR 0x22] @ nm @ [CHR 0x22]
                          @ '' under '' @ [CHR 0x22] @ ''Clinical'' @ [CHR 0x22] @ '' in nav panel'',
                priority = ''High'', details = None\<rparr>]
        else [])"
  have types: "\<forall>t \<in> set mid. ticket_type t = ''rbac_permissions'' \<or> ticket_type t = ''nav_menu''"
    by (auto simp: mid_def)
  show ?thesis
  proof (cases "any_in [''add'', ''create'', ''new'', ''form''] (lower text)")
    case True
    with assms obtain fs where fs: "extract_fields dyn text = Inr fs"
      by (auto simp: generate_tickets_from_text_def Let_def split: sum.splits)
    let ?adds = "[\<lparr>ticket_type = ''add_entity'',
                   summary = ''User should be able to add a '' @ extract_entity_name text nm,
                   priority = ''High'',
                   details = Some (no_details\<lparr>entity_name := Some (extract_entity_name text nm),
                                              field_specs := Some fs\<rparr>)\<rparr>]"
    from assms True fs have "ts = \<lparr>ticket_type = ''backend_architecture'',
                  summary = ''BE: Implement backend architecture of '' @ [CHR 0x22] @ nm @ [CHR 0x22],
                  priority = ''High'', details = None\<rparr>
                # mid @ concat (map (tab_tickets self text []) (tabs ed)) @ ?adds"
      by (auto simp: generate_tickets_from_text_def Let_def foldl_tab_tickets mid_def)
    with types True fs show ?thesis by auto
  next
    case False
    with assms have "ts = \<lparr>ticket_type = ''backend_architecture'',
                  summary = ''BE: Implement backend architecture of '' @ [CHR 0x22] @ nm @ [CHR 0x22],
                  priority = ''High'', details = None\<rparr>
                # mid @ concat (map (tab_tickets self text []) (tabs ed)) @ []"
      by (auto simp: generate_tickets_from_text_def Let_def foldl_tab_tickets mid_def)
    with types False show ?thesis by auto
  qed
qed


lemma generate_tickets_member:
  assumes "generate_tickets_from_text self dyn text nm ed = Inr ts" and "t \<in> set ts"
  shows "ticket_type t = ''backend_architecture'' \<or> ticket_type t = ''rbac_permissions'' \<or>
         ticket_type t = ''nav_menu'' \<or>
         (\<exists>tab \<in> set (tabs ed). t \<in> set (tab_tickets self text [] tab)) \<or>
         (any_in [''add'', ''create'', ''new'', ''form''] (lower text) \<and>
          ticket_type t = ''add_entity'' \<and>
          summary t = ''User should be able to add a '' @ extract_entity_name text nm)"
proof -
  from generate_tickets_shape [OF assms(1)] obtain mid adds where
    ts: "ts = \<lparr>ticket_type = ''backend_architecture'',
                  summary = ''BE: Implement backend architecture of '' @ [CHR 0x22] @ nm @ [CHR 0x22],
                  priority = ''High'', details = None\<rparr>
                # mid @ concat (map (tab_tickets self text []) (tabs ed)) @ adds"
    and mid: "\<forall>t \<in> set mid. ticket_type t = ''rbac_permissions'' \<or> ticket_type t = ''nav_menu''"
    and adds: "if any_in [''add'', ''create'', ''new'', ''form''] (lower text)
            then \<exists>fs. extract_fields dyn text = Inr fs \<and>
                   adds = [\<lparr>ticket_type = ''add_entity'',
                            summary = ''User should be able to add a '' @ extract_entity_name text nm,
                            priority = ''High'',
                            details = Some (no_details\<lparr>entity_name := Some (extract_entity_name text nm),
                                                       field_specs := Some fs\<rparr>)\<rparr>]
            else adds = []"
    by blast
  from assms(2) ts consider
      "ticket_type t = ''backend_architecture''"
    | "t \<in> set mid"
    | tab where "tab \<in> set (tabs ed)" and "t \<in> set (tab_tickets self text [] tab)"
    | "t \<in> set adds"
    by auto
  then show ?thesis
  proof cases
    case 1 then show ?thesis by simp
  next
    case 2 with mid show ?thesis by auto
  next
    case 3 then show ?thesis by blast
  next
    case 4
    with adds show ?thesis by (auto split: if_splits)
  qed
qed

lemma generate_tickets_head:
  assumes "generate_tickets_from_text self dyn text nm ed = Inr ts"
  shows "ts \<noteq> [] \<and> ticket_type (hd ts) = ''backend_architecture'' \<and> priority (hd ts) = ''High''"
  using generate_tickets_shape [OF assms] by auto

lemma generate_tickets_add:
  assumes "generate_tickets_from_text self dyn text nm ed = Inr ts"
    and "any_in [''add'', ''create'', ''new'', ''form''] (lower text)"
  shows "ts \<noteq> [] \<and> ticket_type (last ts) = ''add_entity''"
  using generate_tickets_shape [OF assms(1)] assms(2) by auto

section \<open>Properties of the matcher\<close>

lemma lit_match_length: "lit_match ic w s = Some s' \<Longrightarrow> length s = length w + length s'"
  by (induction ic w s rule: lit_match.induct) (auto split: if_splits)

lemma rmatch_shorter:
  "m \<in> set (rmatch ic r s c) \<Longrightarrow> length (fst m) + min_len r \<le> length s"
proof (induction ic r s c arbitrary: m rule: rmatch.induct)
  case (1 ic w s c)
  then obtain s' where "lit_match ic w s = Some s'" and "m = (s', c)"
    by (cases "lit_match ic w s") (auto simp: rmatch.simps)
  with lit_match_length [of ic w s s'] show ?case by simp
next
  case (2 ic neg items s c)
  then show ?case by (auto simp: rmatch.simps split: list.splits if_splits)
next
  case (3 ic r1 r2 s c)
  from "3.prems" obtain m1 where m1: "m1 \<in> set (rmatch ic r1 s c)"
    and m: "m \<in> set (rmatch ic r2 (fst m1) (snd m1))"
    by (auto simp: rmatch.simps)
  from "3.IH"(1) [OF m1] have "length (fst m1) + min_len r1 \<le> length s" .
  moreover from "3.IH"(2) [OF m1 prod.collapse m]
  have "length (fst m) + min_len r2 \<le> length (fst m1)" .
  ultimately show ?case by simp
next
  case (4 ic r1 r2 s c)
  from "4.prems" have "m \<in> set (rmatch ic r1 s c) \<or> m \<in> set (rmatch ic r2 s c)"
    by (simp add: rmatch.simps)
  then show ?case
  proof
    assume "m \<in> set (rmatch ic r1 s c)"
    from "4.IH"(1) [OF this] show ?thesis by simp
  next
    assume "m \<in> set (rmatch ic r2 s c)"
    from "4.IH"(2) [OF this] show ?thesis by simp
  qed
next
  case (5 ic n r s c)
  from "5.prems" obtain m1 where m1: "m1 \<in> set (rmatch ic r s c)" and "fst m = fst m1"
    by (auto simp: rmatch.simps)
  with "5.IH" [OF m1] show ?case by simp
next
  case (6 ic greedy lo hi r s c)
  let ?next = "Rep greedy (lo - 1) (map_option (\<lambda>h. h - 1) hi) r"
  from "6.prems" consider
      (stop) "lo = 0" and "m = (s, c)"
    | (more) m1 where "hi \<noteq> Some 0" and "m1 \<in> set (rmatch ic r s c)"
        and "length (fst m1) < length s" and "m \<in> set (rmatch ic ?next (fst m1) (snd m1))"
    by (auto simp: rmatch.simps(6) [of ic greedy lo hi r s c] Let_def split: if_splits)
  then show ?case
  proof cases
    case stop
    then show ?thesis by simp
  next
    case more
    from "6.IH"(1) [OF more(1,2)] have a: "length (fst m1) + min_len r \<le> length s" .
    from "6.IH"(2) [OF more(1,2) prod.collapse more(3,4)]
    have b: "length (fst m) + (lo - 1) * min_len r \<le> length (fst m1)" by simp
    have "lo * min_len r \<le> (lo - 1) * min_len r + min_len r" by (cases lo) simp_all
    with a b show ?thesis by simp
  qed
qed

lemma patterns_consume:
  "list_all (\<lambda>p. 0 < min_len p)
     (epic_name_patterns @ tabs_patterns @ rbac_patterns @ table_columns_patterns @
      field_patterns @ action_item_patterns @
      [date_pattern, attendees_pattern, entity_pattern, list_separator, comma_separator,
       sentence_separator])"
  by code_simp

lemma rmatch_keeps:
  "m \<in> set (rmatch ic r s c) \<Longrightarrow> fst ` set c \<subseteq> fst ` set (snd m)"
proof (induction ic r s c arbitrary: m rule: rmatch.induct)
  case (1 ic w s c)
  then show ?case by (cases "lit_match ic w s") (auto simp: rmatch.simps)
next
  case (2 ic neg items s c)
  then show ?case by (cases s) (auto simp: rmatch.simps split: if_splits)
next
  case (3 ic r1 r2 s c)
  from "3.prems" obtain m1 where m1: "m1 \<in> set (rmatch ic r1 s c)"
    and m: "m \<in> set (rmatch ic r2 (fst m1) (snd m1))"
    by (auto simp: rmatch.simps)
  from "3.IH"(1) [OF m1] "3.IH"(2) [OF m1 prod.collapse m] show ?case by blast
next
  case (4 ic r1 r2 s c)
  from "4.prems" have "m \<in> set (rmatch ic r1 s c) \<or> m \<in> set (rmatch ic r2 s c)"
    by (simp add: rmatch.simps)
  with "4.IH" show ?case by blast
next
  case (5 ic n r s c)
  from "5.prems" obtain m1 where m1: "m1 \<in> set (rmatch ic r s c)"
    and "snd m = (n, consumed s (fst m1)) # snd m1"
    by (auto simp: rmatch.simps)
  with "5.IH" [OF m1] show ?case by auto
next
  case (6 ic greedy lo hi r s c)
  let ?next = "Rep greedy (lo - 1) (map_option (\<lambda>h. h - 1) hi) r"
  from "6.prems" consider
      (stop) "lo = 0" and "m = (s, c)"
    | (more) m1 where "hi \<noteq> Some 0" and "m1 \<in> set (rmatch ic r s c)"
        and "length (fst m1) < length s" and "m \<in> set (rmatch ic ?next (fst m1) (snd m1))"
    by (auto simp: rmatch.simps(6) [of ic greedy lo hi r s c] Let_def split: if_splits)
  then show ?case
  proof cases
    case stop
    then show ?thesis by simp
  next
    case more
    from "6.IH"(1) [OF more(1,2)] "6.IH"(2) [OF more(1,2) prod.collapse more(3,4)]
    show ?thesis by blast
  qed
qed

lemma rmatch_binds:
  "binds n r \<Longrightarrow> m \<in> set (rmatch ic r s c) \<Longrightarrow> n \<in> fst ` set (snd m)"
proof (induction ic r s c arbitrary: m rule: rmatch.induct)
  case (1 ic w s c)
  then show ?case by simp
next
  case (2 ic neg items s c)
  then show ?case by simp
next
  case (3 ic r1 r2 s c)
  from "3.prems"(2) obtain m1 where m1: "m1 \<in> set (rmatch ic r1 s c)"
    and m: "m \<in> set (rmatch ic r2 (fst m1) (snd m1))"
    by (auto simp: rmatch.simps)
  from "3.prems"(1) have "binds n r1 \<or> binds n r2" by simp
  then show ?case
  proof
    assume "binds n r1"
    from "3.IH"(1) [OF this m1] rmatch_keeps [OF m] show ?thesis by blast
  next
    assume "binds n r2"
    from "3.IH"(2) [OF m1 prod.collapse this m] show ?thesis .
  qed
next
  case (4 ic r1 r2 s c)
  from "4.prems"(1) have b1: "binds n r1" and b2: "binds n r2" by simp_all
  from "4.prems"(2) have "m \<in> set (rmatch ic r1 s c) \<or> m \<in> set (rmatch ic r2 s c)"
    by (simp add: rmatch.simps)
  then show ?case
  proof
    assume "m \<in> set (rmatch ic r1 s c)"
    from "4.IH"(1) [OF b1 this] show ?thesis .
  next
    assume "m \<in> set (rmatch ic r2 s c)"
    from "4.IH"(2) [OF b2 this] show ?thesis .
  qed
next
  case (5 ic k r s c)
  from "5.prems"(2) obtain m1 where m1: "m1 \<in> set (rmatch ic r s c)"
    and sm: "snd m = (k, consumed s (fst m1)) # snd m1"
    by (auto simp: rmatch.simps)
  show ?case
  proof (cases "k = n")
    case True
    with sm show ?thesis by simp
  next
    case False
    with "5.prems"(1) have "binds n r" by simp
    from "5.IH" [OF this m1] sm show ?thesis by simp
  qed
next
  case (6 ic greedy lo hi r s c)
  let ?next = "Rep greedy (lo - 1) (map_option (\<lambda>h. h - 1) hi) r"
  from "6.prems"(1) have lo: "0 < lo" and b: "binds n r" by simp_all
  from "6.prems"(2) lo obtain m1 where "hi \<noteq> Some 0" and "m1 \<in> set (rmatch ic r s c)"
        and "length (fst m1) < length s" and "m \<in> set (rmatch ic ?next (fst m1) (snd m1))"
    by (auto simp: rmatch.simps(6) [of ic greedy lo hi r s c] Let_def split: if_splits)
  from "6.IH"(1) [OF this(1) b this(2)] rmatch_keeps [OF this(4)] show ?case by blast
qed

lemma finditer_origin:
  "m \<in> set (finditer ic r s) \<Longrightarrow> \<exists>s0 m0. m0 \<in> set (rmatch ic r s0 []) \<and> m = mk_match s0 m0"
proof (induction ic r s rule: finditer.induct)
  case (1 ic r s)
  show ?case
  proof (cases "rmatch ic r s []")
    case Nil
    show ?thesis
    proof (cases s)
      case Nil
      with \<open>rmatch ic r s [] = []\<close> "1.prems" show ?thesis
        by (simp add: finditer.simps [of ic r "[]"])
    next
      case (Cons y ys)
      with \<open>rmatch ic r s [] = []\<close> "1.prems" have "m \<in> set (finditer ic r ys)"
        by (simp add: finditer.simps [of ic r "y # ys"])
      from "1.IH"(1) [OF \<open>rmatch ic r s [] = []\<close> Cons this] show ?thesis .
    qed
  next
    case (Cons m1 ms)
    have "finditer ic r s = mk_match s m1 #
          (if length (fst m1) < length s then finditer ic r (fst m1)
           else (case s of [] \<Rightarrow> [] | x # xs \<Rightarrow> finditer ic r xs))"
      by (subst finditer.simps) (simp add: Cons)
    with "1.prems" consider "m = mk_match s m1"
      | "length (fst m1) < length s" and "m \<in> set (finditer ic r (fst m1))"
      | y ys where "\<not> length (fst m1) < length s" and "s = y # ys" and "m \<in> set (finditer ic r ys)"
      by (cases s) (auto split: if_splits)
    then show ?thesis
    proof cases
      case 1
      with Cons show ?thesis by (metis list.set_intros(1))
    next
      case 2
      from "1.IH"(2) [OF Cons this(1) this(2)] show ?thesis .
    next
      case 3
      from "1.IH"(3) [OF Cons this(1) this(2) this(3)] show ?thesis .
    qed
  qed
qed

lemma finditer_binds:
  assumes "binds n r" and "m \<in> set (finditer ic r s)"
  shows "\<exists>g. map_of m n = Some g"
proof -
  from finditer_origin [OF assms(2)] obtain s0 m0 where
    m0: "m0 \<in> set (rmatch ic r s0 [])" and m: "m = mk_match s0 m0" by blast
  from rmatch_binds [OF assms(1) m0] have "n \<in> fst ` set m" by (simp add: m mk_match_def)
  then show ?thesis by (metis map_of_eq_None_iff not_Some_eq)
qed

lemma re_search_origin:
  "re_search ic r s = Some m \<Longrightarrow> \<exists>s0 m0. m0 \<in> set (rmatch ic r s0 []) \<and> m = mk_match s0 m0"
proof (induction s)
  case Nil
  then obtain m0 ms where "rmatch ic r [] [] = m0 # ms" and "m = mk_match [] m0"
    by (cases "rmatch ic r [] []") auto
  then have "m0 \<in> set (rmatch ic r [] []) \<and> m = mk_match [] m0" by simp
  then show ?case by blast
next
  case (Cons x xs)
  show ?case
  proof (cases "rmatch ic r (x # xs) []")
    case Nil
    with Cons show ?thesis by simp
  next
    case (Cons m0 ms)
    with Cons.prems have "m0 \<in> set (rmatch ic r (x # xs) []) \<and> m = mk_match (x # xs) m0" by simp
    then show ?thesis by blast
  qed
qed

lemma re_search_binds:
  assumes "binds n r" and "re_search ic r s = Some m"
  shows "\<exists>g. map_of m n = Some g"
proof -
  from re_search_origin [OF assms(2)] obtain s0 m0 where
    m0: "m0 \<in> set (rmatch ic r s0 [])" and m: "m = mk_match s0 m0" by blast
  from rmatch_binds [OF assms(1) m0] have "n \<in> fst ` set m" by (simp add: m mk_match_def)
  then show ?thesis by (metis map_of_eq_None_iff not_Some_eq)
qed

lemma groups_read_are_bound:
  "list_all (binds 1) epic_name_patterns \<and> list_all (binds 1) tabs_patterns \<and>
   list_all (\<lambda>p. binds 1 p \<and> binds 2 p) rbac_patterns \<and>
   list_all (binds 1) table_columns_patterns \<and> list_all (binds 1) field_patterns \<and>
   binds 1 date_pattern \<and> binds 1 attendees_pattern \<and> binds 1 entity_pattern"
  by code_simp

lemma lit_match_stop:
  "list_all (\<lambda>a. \<not> (if ic then lower_char a = lower_char d else a = d)) w \<Longrightarrow>
     lit_match ic w (x @ d # b) = map_option (\<lambda>s'. s' @ d # b) (lit_match ic w x)"
  by (induction ic w x rule: lit_match.induct) auto

lemma consumed_append: "consumed (x @ y) (s' @ y) = consumed x s'"
  by (simp add: consumed_def)

lemma rmatch_stop:
  "stops_at ic d r \<Longrightarrow>
     rmatch ic r (x @ d # b) c = map (\<lambda>m. (fst m @ d # b, snd m)) (rmatch ic r x c)"
proof (induction ic r x c rule: rmatch.induct)
  case (1 ic w s c)
  then show ?case by (simp add: rmatch.simps lit_match_stop split: option.splits)
next
  case (2 ic neg items s c)
  then show ?case by (cases s) (simp_all add: rmatch.simps)
next
  case (3 ic r1 r2 s c)
  from "3.prems" have s1: "stops_at ic d r1" and s2: "stops_at ic d r2" by simp_all
  have "rmatch ic (Seq r1 r2) (s @ d # b) c =
      concat (map (\<lambda>m. rmatch ic r2 (fst m @ d # b) (snd m)) (rmatch ic r1 s c))"
    by (simp add: rmatch.simps "3.IH"(1) [OF s1] comp_def case_prod_beta)
  also have "\<dots> = concat (map (\<lambda>m. map (\<lambda>m. (fst m @ d # b, snd m)) (rmatch ic r2 (fst m) (snd m)))
      (rmatch ic r1 s c))"
    using "3.IH"(2) [OF _ prod.collapse s2]
    by (intro arg_cong [where f = concat] map_cong refl) simp
  also have "\<dots> = map (\<lambda>m. (fst m @ d # b, snd m)) (rmatch ic (Seq r1 r2) s c)"
    by (simp add: rmatch.simps map_concat comp_def case_prod_beta)
  finally show ?case .
next
  case (4 ic r1 r2 s c)
  then show ?case by (simp add: rmatch.simps)
next
  case (5 ic n r s c)
  then show ?case
    by (simp add: rmatch.simps comp_def case_prod_beta consumed_append [of s "d # b"])
next
  case (6 ic greedy lo hi r s c)
  let ?next = "Rep greedy (lo - 1) (map_option (\<lambda>h. h - 1) hi) r"
  let ?f = "\<lambda>m. (fst m @ d # b, snd m)"
  from "6.prems" have sr: "stops_at ic d r" and sn: "stops_at ic d ?next" by simp_all
  have more: "concat (map (\<lambda>(s', c'). if length s' < length (s @ d # b) then rmatch ic ?next s' c' else [])
                  (rmatch ic r (s @ d # b) c)) =
        map ?f (concat (map (\<lambda>(s', c'). if length s' < length s then rmatch ic ?next s' c' else [])
                  (rmatch ic r s c)))" if hi: "hi \<noteq> Some 0"
  proof -
    have "concat (map (\<lambda>(s', c'). if length s' < length (s @ d # b) then rmatch ic ?next s' c' else [])
                  (rmatch ic r (s @ d # b) c)) =
          concat (map (\<lambda>m. if length (fst m) < length s then rmatch ic ?next (fst m @ d # b) (snd m) else [])
                  (rmatch ic r s c))"
      by (simp add: "6.IH"(1) [OF hi sr] comp_def case_prod_beta cong: if_cong)
    also have "\<dots> = concat (map (\<lambda>m. if length (fst m) < length s
                           then map ?f (rmatch ic ?next (fst m) (snd m)) else [])
                  (rmatch ic r s c))"
      using "6.IH"(2) [OF hi _ prod.collapse _ sn]
      by (intro arg_cong [where f = concat] map_cong refl) simp
    also have "\<dots> = map ?f (concat (map (\<lambda>(s', c'). if length s' < length s then rmatch ic ?next s' c' else [])
                  (rmatch ic r s c)))"
      by (simp add: map_concat comp_def case_prod_beta if_distrib [of "map ?f"] cong: if_cong)
    finally show ?thesis .
  qed
  show ?case
    unfolding rmatch.simps(6) [of ic greedy lo hi r "s @ d # b" c] rmatch.simps(6) [of ic greedy lo hi r s c] Let_def
    using more by (cases "hi = Some 0") simp_all
qed

lemma finditer_Nil: "0 < min_len r \<Longrightarrow> finditer ic r [] = []"
proof -
  assume pos: "0 < min_len r"
  have "rmatch ic r [] [] = []"
  proof (cases "rmatch ic r [] []")
    case (Cons m ms)
    then have "m \<in> set (rmatch ic r [] [])" by simp
    from rmatch_shorter [OF this] pos show ?thesis by simp
  qed simp
  then show ?thesis by (simp add: finditer.simps)
qed

lemma finditer_stop:
  assumes stop: "stops_at ic d r" and pos: "0 < min_len r"
  shows "finditer ic r (x @ d # b) = finditer ic r x @ finditer ic r b"
proof (induction x rule: length_induct)
  case (1 x)
  note loc = rmatch_stop [OF stop, of x b "[]"]
  show ?case
  proof (cases "rmatch ic r x []")
    case Nil
    with loc have full: "rmatch ic r (x @ d # b) [] = []" by simp
    show ?thesis
    proof (cases x)
      case Nil
      with full finditer_Nil [OF pos, of ic] show ?thesis
        by (simp add: finditer.simps [of ic r "d # b"])
    next
      case (Cons y ys)
      with "1.IH" have "finditer ic r (ys @ d # b) = finditer ic r ys @ finditer ic r b" by simp
      with Cons full \<open>rmatch ic r x [] = []\<close> show ?thesis
        by (simp add: finditer.simps [of ic r "y # ys @ d # b"] finditer.simps [of ic r "y # ys"])
    qed
  next
    case (Cons m ms)
    then have "m \<in> set (rmatch ic r x [])" by simp
    from rmatch_shorter [OF this] pos have short: "length (fst m) < length x" by simp
    with "1.IH" have ih: "finditer ic r (fst m @ d # b) = finditer ic r (fst m) @ finditer ic r b"
      by simp
    from loc Cons have full: "rmatch ic r (x @ d # b) [] =
        (fst m @ d # b, snd m) # map (\<lambda>m. (fst m @ d # b, snd m)) ms" by simp
    show ?thesis
      using Cons short ih
      by (simp add: finditer.simps [of ic r "x @ d # b"] finditer.simps [of ic r x] full
            mk_match_def consumed_append [of x "d # b"])
  qed
qed

lemma matches_of_stop:
  assumes "list_all (\<lambda>p. stops_at True d p \<and> 0 < min_len p) ps"
  shows "matches_of ps (x @ d # b) = concat (map (\<lambda>p. finditer True p x @ finditer True p b) ps)"
proof -
  have "finditer True p (x @ d # b) = finditer True p x @ finditer True p b" if "p \<in> set ps" for p
    using assms that by (simp add: finditer_stop list_all_iff)
  then have "map (\<lambda>p. finditer True p (x @ d # b)) ps =
      map (\<lambda>p. finditer True p x @ finditer True p b) ps"
    by simp
  then show ?thesis by (simp only: matches_of_def)
qed

lemma matches_of_Nil:
  assumes "list_all (\<lambda>p. stops_at True d p \<and> 0 < min_len p) ps"
  shows "matches_of ps [] = []"
  using assms by (induction ps) (simp_all add: matches_of_def finditer_Nil)

lemma matches_of_skip_left:
  assumes "list_all (\<lambda>p. stops_at True d p \<and> 0 < min_len p) ps" and "matches_of ps x = []"
  shows "matches_of ps (x @ d # b) = matches_of ps b"
proof -
  from assms(2) have "finditer True p x = []" if "p \<in> set ps" for p
    using that by (auto simp: matches_of_def)
  then have "concat (map (\<lambda>p. finditer True p x @ finditer True p b) ps) =
      concat (map (\<lambda>p. finditer True p b) ps)"
    by (intro arg_cong [where f = concat] map_cong refl) simp
  with matches_of_stop [OF assms(1)] show ?thesis by (simp add: matches_of_def)
qed

lemma matches_of_skip_right:
  assumes "list_all (\<lambda>p. stops_at True d p \<and> 0 < min_len p) ps" and "matches_of ps b = []"
  shows "matches_of ps (x @ d # b) = matches_of ps x"
proof -
  from assms(2) have "finditer True p b = []" if "p \<in> set ps" for p
    using that by (auto simp: matches_of_def)
  then have "concat (map (\<lambda>p. finditer True p x @ finditer True p b) ps) =
      concat (map (\<lambda>p. finditer True p x) ps)"
    by (intro arg_cong [where f = concat] map_cong refl) simp
  with matches_of_stop [OF assms(1)] show ?thesis by (simp add: matches_of_def)
qed

lemma matches_of_member_right:
  assumes "list_all (\<lambda>p. stops_at True d p \<and> 0 < min_len p) ps"
    and "p \<in> set ps" and "m \<in> set (finditer True p b)"
  shows "m \<in> set (matches_of ps (x @ d # b))"
  using assms(2,3) unfolding matches_of_stop [OF assms(1)] by auto

lemma tabs_patterns_stop:
  "list_all (\<lambda>p. stops_at True CHR ''.'' p \<and> 0 < min_len p) tabs_patterns"
  by code_simp

lemma rbac_patterns_stop:
  "list_all (\<lambda>p. stops_at True CHR ''.'' p \<and> 0 < min_len p) rbac_patterns"
  by code_simp

lemma rmatch_rep_cls_Cons:
  "rmatch ic (Rep True lo None (Cls neg items)) (x # s) c =
     (if cls_match ic neg items x then rmatch ic (Rep True (lo - 1) None (Cls neg items)) s c else [])
     @ (if lo = 0 then [(x # s, c)] else [])"
  by (simp add: rmatch.simps Let_def)

lemma rmatch_rep_zero:
  "rmatch ic (Rep greedy lo (Some 0) r) s c = (if lo = 0 then [(s, c)] else [])"
  by (simp add: rmatch.simps Let_def)

lemma rmatch_opt:
  "rmatch ic (Rep True 0 (Some (Suc 0)) r) s c =
     concat (map (\<lambda>(s', c'). if length s' < length s then [(s', c')] else []) (rmatch ic r s c))
     @ [(s, c)]"
  by (subst rmatch.simps(6)) (simp add: rmatch_rep_zero Let_def cong: if_cong)

lemma rmatch_star_cls_head:
  "\<exists>ms. rmatch ic (Rep True 0 None (Cls neg items)) s c =
     (dropWhile (cls_match ic neg items) s, c) # ms"
  by (induction s) (simp_all add: rmatch.simps(6) [of _ _ _ _ _ "[]"] rmatch.simps(2) Let_def rmatch_rep_cls_Cons, auto)

lemmas rmatch_eval = rmatch.simps(1-5) rmatch_opt rmatch_rep_cls_Cons cls_match_def
  seqs_def alts_def plus_def opt_def star_def plural_def ws_def not_dot_def
  lower_char_bits upper_char_bits py_isspace_bits py_isdigit_bits in_range_upper_bits in_range_lower_bits

lemma consumed_Cons: "length s' \<le> length s \<Longrightarrow> consumed (x # s) s' = x # consumed s s'"
  by (simp add: consumed_def Suc_diff_le)

lemma consumed_same: "consumed s s = []"
  by (simp add: consumed_def)

lemma consumed_dropWhile: "consumed s (dropWhile P s) = takeWhile P s"
proof -
  have "length (takeWhile P s) + length (dropWhile P s) = length s"
    by (simp only: length_append [symmetric] takeWhile_dropWhile_id)
  then have "length s - length (dropWhile P s) = length (takeWhile P s)"
    by simp
  then show ?thesis by (simp add: consumed_def takeWhile_eq_take [symmetric])
qed

lemma not_dot_match: "cls_match True True [CChar CHR ''.''] = (\<lambda>x. x \<noteq> CHR ''.'')"
proof
  fix x
  have "lower_char x = CHR ''.'' \<longleftrightarrow> x = CHR ''.''"
    by (cases x) (auto simp: lower_char_bits)
  then show "cls_match True True [CChar CHR ''.''] x = (x \<noteq> CHR ''.'')"
    by (auto simp: cls_match_def lower_char_bits)
qed

lemma only_nurses_match:
  "\<exists>ms. rmatch True (rbac_patterns ! 1) (''only nurses can edit medication records'' @ post) [] =
     (dropWhile (\<lambda>x. x \<noteq> CHR ''.'') post,
      [(2, ''edit medication records'' @ takeWhile (\<lambda>x. x \<noteq> CHR ''.'') post), (1, ''nurses'')]) # ms"
proof -
  have "\<exists>ms. rmatch True (Rep True 0 None (Cls True [CChar CHR ''.''])) post c =
      (dropWhile (cls_match True True [CChar CHR ''.'']) post, c) # ms" for c
    by (rule rmatch_star_cls_head)
  then have "\<exists>ms. rmatch True (Rep True 0 None (Cls True [CChar CHR ''.''])) post
        [(1, ''nurses'')] = (dropWhile (\<lambda>x. x \<noteq> CHR ''.'') post, [(1, ''nurses'')]) # ms"
    by (simp only: not_dot_match)
  then obtain ms where ms: "rmatch True (Rep True 0 None (Cls True [CChar CHR ''.''])) post
        [(Suc 0, ''nurses'')] = (dropWhile (\<lambda>x. x \<noteq> CHR ''.'') post, [(Suc 0, ''nurses'')]) # ms"
    by auto
  have le: "length (dropWhile (\<lambda>x. x \<noteq> CHR ''.'') post) \<le> length post"
    by (rule length_dropWhile_le)
  show ?thesis
    using le
    apply (simp add: rbac_patterns_def rmatch_eval ms consumed_Cons consumed_same consumed_dropWhile)
    done
qed

lemma nurses_match:
  "\<exists>ms. rmatch True (rbac_patterns ! 0) (''nurses can edit medication records'' @ post) [] =
     (dropWhile (\<lambda>x. x \<noteq> CHR ''.'') post,
      [(2, ''edit medication records'' @ takeWhile (\<lambda>x. x \<noteq> CHR ''.'') post), (1, ''nurses'')]) # ms"
proof -
  have "\<exists>ms. rmatch True (Rep True 0 None (Cls True [CChar CHR ''.''])) post c =
      (dropWhile (cls_match True True [CChar CHR ''.'']) post, c) # ms" for c
    by (rule rmatch_star_cls_head)
  then have "\<exists>ms. rmatch True (Rep True 0 None (Cls True [CChar CHR ''.''])) post
        [(1, ''nurses'')] = (dropWhile (\<lambda>x. x \<noteq> CHR ''.'') post, [(1, ''nurses'')]) # ms"
    by (simp only: not_dot_match)
  then obtain ms where ms: "rmatch True (Rep True 0 None (Cls True [CChar CHR ''.''])) post
        [(Suc 0, ''nurses'')] = (dropWhile (\<lambda>x. x \<noteq> CHR ''.'') post, [(Suc 0, ''nurses'')]) # ms"
    by auto
  have le: "length (dropWhile (\<lambda>x. x \<noteq> CHR ''.'') post) \<le> length post"
    by (rule length_dropWhile_le)
  show ?thesis
    using le
    by (simp add: rbac_patterns_def rmatch_eval ms consumed_Cons consumed_same consumed_dropWhile)
qed

lemma no_nurses_in_only:
  "no_match_in (rbac_patterns ! 0) ''only '' (''nurses can edit medication records'' @ post)"
  by (simp add: rbac_patterns_def rmatch_eval)

lemma finditer_first:
  "rmatch ic r s [] = m # ms \<Longrightarrow> mk_match s m \<in> set (finditer ic r s)"
  by (simp add: finditer.simps [of ic r s])

lemma map_of_update_entries:
  "map_of (map (\<lambda>(k, v). if k = role then (k, f v) else (k, v)) rb) k =
     (if k = role then map_option f (map_of rb k) else map_of rb k)"
  by (induction rb) auto

lemma map_of_add_rbac:
  "map_of (add_rbac rb m) k =
     (if k = capitalize (group m 1)
      then Some ((case map_of rb k of None \<Rightarrow> \<lparr>permissions = [], actions = []\<rparr> | Some v \<Rightarrow> v)
                  \<lparr>actions := actions (case map_of rb k of None \<Rightarrow> \<lparr>permissions = [], actions = []\<rparr> | Some v \<Rightarrow> v)
                               @ [strip (group m 2)]\<rparr>)
      else map_of rb k)"
proof (cases "capitalize (group m 1) \<in> fst ` set rb")
  case True
  then obtain v where "map_of rb (capitalize (group m 1)) = Some v"
    by (metis map_of_eq_None_iff not_Some_eq)
  with True show ?thesis
    by (simp add: add_rbac_def Let_def map_of_update_entries)
next
  case False
  then have "map_of rb (capitalize (group m 1)) = None" by (simp add: map_of_eq_None_iff)
  with False show ?thesis
    by (simp add: add_rbac_def Let_def map_of_update_entries map_add_def split: option.splits)
qed

lemma filter_no_role: "\<forall>x \<in> set ms. a \<noteq> f x \<Longrightarrow> filter (\<lambda>x. f x = a) ms = []"
  by (induction ms) auto

lemma map_of_foldl_add_rbac:
  "map_of (foldl add_rbac rb ms) k =
     (if k \<in> (\<lambda>m. capitalize (group m 1)) ` set ms
      then Some ((case map_of rb k of None \<Rightarrow> \<lparr>permissions = [], actions = []\<rparr> | Some v \<Rightarrow> v)
                  \<lparr>actions := actions (case map_of rb k of None \<Rightarrow> \<lparr>permissions = [], actions = []\<rparr> | Some v \<Rightarrow> v)
                               @ map (\<lambda>m. strip (group m 2))
                                   (filter (\<lambda>m. capitalize (group m 1) = k) ms)\<rparr>)
      else map_of rb k)"
proof (induction ms arbitrary: rb)
  case Nil
  show ?case by simp
next
  case (Cons m ms)
  show ?case
    by (auto simp: Cons.IH [of "add_rbac rb m"] map_of_add_rbac filter_no_role image_iff
             split: option.splits)
qed

lemma strip_keeps_prefix:
  assumes "w \<noteq> []" and "\<not> py_isspace (hd w)" and "\<not> py_isspace (last w)"
  shows "prefix w (strip (w @ t))"
proof -
  from assms(1,2) have "dropWhile py_isspace (w @ t) = w @ t" by (cases w) simp_all
  moreover from assms(1,3) have "dropWhile py_isspace (rev w) = rev w"
    by (cases w rule: rev_cases) simp_all
  then have "\<exists>u. dropWhile py_isspace (rev t @ rev w) = u @ rev w"
    by (cases "\<forall>x \<in> set (rev t). py_isspace x") (auto simp: dropWhile_append)
  ultimately show ?thesis by (auto simp: strip_def)
qed

lemma sentence_start_cases:
  assumes "pre \<noteq> [] \<longrightarrow> last pre = d"
  obtains "pre = []" | p where "pre = p @ [d]"
  using assms by (cases pre rule: rev_cases) auto

lemma finditer_skip:
  "no_match_in r pre rest \<Longrightarrow> finditer True r (pre @ rest) = finditer True r rest"
proof (induction pre)
  case Nil
  show ?case by simp
next
  case (Cons x xs)
  then have "rmatch True r (x # xs @ rest) [] = []"
    and "finditer True r (xs @ rest) = finditer True r rest"
    by simp_all
  then show ?case by (simp add: finditer.simps [of True r "x # xs @ rest"])
qed

lemma matches_of_skip:
  assumes "\<forall>p \<in> set ps. no_match_in p pre rest"
  shows "matches_of ps (pre @ rest) = matches_of ps rest"
proof -
  have "map (\<lambda>p. finditer True p (pre @ rest)) ps = map (\<lambda>p. finditer True p rest) ps"
    using assms by (simp add: finditer_skip)
  then show ?thesis by (simp only: matches_of_def)
qed

lemma matches_of_sentence:
  assumes stop: "list_all (\<lambda>p. stops_at True d p \<and> 0 < min_len p) ps"
    and post: "post \<noteq> [] \<longrightarrow> hd post = d"
    and no_pre: "\<forall>p \<in> set ps. no_match_in p pre (mid @ post)"
    and no_post: "matches_of ps post = []"
  shows "matches_of ps (pre @ mid @ post) = matches_of ps mid"
proof -
  have right: "matches_of ps (mid @ post) = matches_of ps mid"
  proof (cases post)
    case Nil
    then show ?thesis by simp
  next
    case (Cons y q)
    with post have y: "y = d" by simp
    from matches_of_skip_left [OF stop matches_of_Nil [OF stop], of q] no_post Cons y
    have "matches_of ps q = []" by simp
    from matches_of_skip_right [OF stop this, of mid] Cons y show ?thesis by simp
  qed
  from matches_of_skip [OF no_pre] right show ?thesis by simp
qed

lemma table_tabs: "pat_tabs (extraction_patterns TranscriptProcessor) = tabs_patterns"
  by (simp add: TranscriptProcessor_def load_extraction_patterns_def)

lemma table_rbac: "pat_rbac (extraction_patterns TranscriptProcessor) = rbac_patterns"
  by (simp add: TranscriptProcessor_def load_extraction_patterns_def)

lemma matches_member:
  assumes "m \<in> set ms" and "capitalize (group m 1) = r"
  shows "r \<in> (\<lambda>m. capitalize (group m 1)) ` set ms"
    and "strip (group m 2) \<in> set (map (\<lambda>m. strip (group m 2))
           (filter (\<lambda>m. capitalize (group m 1) = r) ms))"
  using assms by auto

section \<open>Claims about the pipeline\<close>

text \<open>
  C2. When the transcript contains both \<open>critical\<close> and \<open>low priority\<close>, every epic of
  the resulting document has priority \<open>Highest\<close>: the tiers are tested in the order
  Highest, High, Low, and the first tier with a keyword in the lowered transcript wins;
  without any keyword the priority is Medium.
\<close>

theorem priority_highest_wins:
  assumes "py_in ''critical'' text" and "py_in ''low priority'' text"
    and "process_transcript self dyn now text md = Inr doc" and "e \<in> set (epics doc)"
  shows "epic_priority e = ''Highest'' \<and> extract_priority text = ''Highest'' \<and>
         extract_priority other =
           (if any_in [''highest'', ''critical'', ''urgent''] (lower other) then ''Highest''
            else if py_in ''high priority'' (lower other) \<or> py_in ''important'' (lower other) then ''High''
            else if py_in ''low priority'' (lower other) then ''Low''
            else ''Medium'')"
proof -
  have "lower ''critical'' = ''critical''" by code_simp
  moreover from assms(1) have "py_in (lower ''critical'') (lower text)" by (rule py_in_lower)
  ultimately have "py_in ''critical'' (lower text)" by simp
  then have hi: "extract_priority text = ''Highest''"
    by (simp add: extract_priority_def any_in_def)
  from process_transcript_epic [OF assms(3,4)] obtain nm where "process_epic self dyn text nm = Inr e"
    by blast
  then have "epic_priority e = extract_priority text" by (rule process_epic_Inr(2))
  with hi show ?thesis by (simp add: extract_priority_def Let_def)
qed

theorem priority_highest_wins_witness:
  "py_in ''critical'' sample_transcript \<and> py_in ''low priority'' sample_transcript \<and>
   process_transcript TranscriptProcessor no_dyn sample_clock sample_transcript None = Inr sample_document \<and>
   sample_epic \<in> set (epics sample_document) \<and>
   epic_priority sample_epic = ''Highest'' \<and> extract_priority sample_transcript = ''Highest''"
proof -
  have a: "py_in ''critical'' sample_transcript" by code_simp
  have b: "py_in ''low priority'' sample_transcript" by code_simp
  have c: "sample_epic \<in> set (epics sample_document)" by (simp add: sample_document_def)
  from priority_highest_wins [OF a b sample_run c] a b c sample_run show ?thesis by blast
qed

text \<open>
  C3. When no epic-name pattern matches, the epic segmenter returns exactly
  \<open>["Unnamed Feature"]\<close>; it never returns the empty list, so the epics of every
  resulting document are non-empty.
\<close>

theorem fallback_epic:
  "(matches_of (pat_epic_name (extraction_patterns self)) text = [] \<longrightarrow> extract_epics self text = [''Unnamed Feature'']) \<and>
   extract_epics self text \<noteq> [] \<and>
   (process_transcript self dyn now text md = Inr doc \<longrightarrow> epics doc \<noteq> [])"
proof -
  have ne: "extract_epics self text \<noteq> []" by (simp add: extract_epics_def Let_def)
  have "epics doc \<noteq> []" if "process_transcript self dyn now text md = Inr doc"
    using collect_Inr_length [OF process_transcript_epics [OF that]] ne by auto
  then show ?thesis using ne by (simp add: extract_epics_def)
qed

theorem fallback_epic_witness:
  "matches_of (pat_epic_name (extraction_patterns TranscriptProcessor)) sample_transcript = [] \<and>
   extract_epics TranscriptProcessor sample_transcript = [''Unnamed Feature''] \<and>
   process_transcript TranscriptProcessor no_dyn sample_clock sample_transcript None = Inr sample_document \<and>
   epics sample_document \<noteq> []"
proof -
  have a: "matches_of (pat_epic_name (extraction_patterns TranscriptProcessor)) sample_transcript = []" by code_simp
  from fallback_epic [of TranscriptProcessor sample_transcript no_dyn sample_clock None sample_document] a sample_run
  show ?thesis by blast
qed

text \<open>
  C4. Every epic of the resulting document has at least one ticket, and its first ticket
  has type \<open>backend_architecture\<close> and priority \<open>High\<close>.
\<close>

theorem backend_ticket_first:
  assumes "process_transcript self dyn now text md = Inr doc" and "e \<in> set (epics doc)"
  shows "tickets e \<noteq> [] \<and> ticket_type (hd (tickets e)) = ''backend_architecture'' \<and>
         priority (hd (tickets e)) = ''High''"
proof -
  from process_transcript_epic [OF assms] obtain nm where "process_epic self dyn text nm = Inr e"
    by blast
  from process_epic_Inr(4) [OF this] obtain ed where
    "generate_tickets_from_text self dyn text nm ed = Inr (tickets e)" by blast
  from generate_tickets_head [OF this] show ?thesis .
qed

theorem backend_ticket_first_witness:
  "process_transcript TranscriptProcessor no_dyn sample_clock sample_transcript None = Inr sample_document \<and>
   sample_epic \<in> set (epics sample_document) \<and>
   tickets sample_epic \<noteq> [] \<and>
   ticket_type (hd (tickets sample_epic)) = ''backend_architecture'' \<and>
   priority (hd (tickets sample_epic)) = ''High''"
proof -
  have c: "sample_epic \<in> set (epics sample_document)" by (simp add: sample_document_def)
  from backend_ticket_first [OF sample_run c] c sample_run show ?thesis by blast
qed

text \<open>
  C5. Every ticket of every epic of the resulting document has one of the eleven ticket
  types of the enumeration.
\<close>

theorem ticket_type_enumerated:
  assumes "process_transcript self dyn now text md = Inr doc" and "e \<in> set (epics doc)"
    and "t \<in> set (tickets e)"
  shows "ticket_type t \<in> set [''view_table_data'', ''add_entity'', ''perform_actions'',
           ''search_filter'', ''download'', ''upload_csv'', ''backend_architecture'',
           ''rbac_permissions'', ''nav_menu'', ''edge_cases'', ''generic_story'']"
proof -
  from process_transcript_epic [OF assms(1,2)] obtain nm where "process_epic self dyn text nm = Inr e"
    by blast
  from process_epic_Inr(4) [OF this] obtain ed where
    "generate_tickets_from_text self dyn text nm ed = Inr (tickets e)" by blast
  from generate_tickets_member [OF this assms(3)] show ?thesis
    by (auto dest: tab_tickets_types)
qed

theorem ticket_type_enumerated_witness:
  "process_transcript TranscriptProcessor no_dyn sample_clock sample_transcript None = Inr sample_document \<and>
   sample_epic \<in> set (epics sample_document) \<and>
   sample_add_ticket \<in> set (tickets sample_epic) \<and>
   ticket_type sample_add_ticket \<in> set [''view_table_data'', ''add_entity'', ''perform_actions'',
           ''search_filter'', ''download'', ''upload_csv'', ''backend_architecture'',
           ''rbac_permissions'', ''nav_menu'', ''edge_cases'', ''generic_story'']"
proof -
  have c: "sample_epic \<in> set (epics sample_document)" by (simp add: sample_document_def)
  have d: "sample_add_ticket \<in> set (tickets sample_epic)" by (simp add: sample_epic_def)
  from ticket_type_enumerated [OF sample_run c d] c d sample_run show ?thesis by blast
qed

lemma py_in_bracket: "py_in (CHR ''<'' # w) s \<Longrightarrow> py_in ''<'' s"
  by (induction s) (auto simp: prefix_Cons)

lemma view_ticket_details:
  assumes "process_transcript self dyn now text md = Inr doc" and "e \<in> set (epics doc)"
    and "t \<in> set (tickets e)" and "ticket_type t = ''view_table_data''"
  shows "\<exists>tab \<in> set (tabs e).
           details t = Some (no_details\<lparr>tab_name := Some tab, columns := Some (extract_columns self text (Some tab))\<rparr>)"
proof -
  from process_transcript_epic [OF assms(1,2)] obtain nm where pe: "process_epic self dyn text nm = Inr e"
    by blast
  from process_epic_Inr(4) [OF pe] obtain ed where
    ed: "tabs ed = extract_tabs self text" "generate_tickets_from_text self dyn text nm ed = Inr (tickets e)" by blast
  from generate_tickets_member [OF ed(2) assms(3)] assms(4)
  obtain tab where "tab \<in> set (tabs ed)" "t \<in> set (tab_tickets self text [] tab)" by auto
  with tab_tickets_view [OF this(2) assms(4)] ed(1) process_epic_Inr(3) [OF pe] show ?thesis by auto
qed

lemma identify_clarifications_member:
  "e \<in> set (epics st) \<Longrightarrow> t \<in> set (tickets e) \<Longrightarrow> c \<in> set (ticket_clarifications t) \<Longrightarrow>
     c \<in> set (identify_clarifications st)"
  by (auto simp: identify_clarifications_def)

lemma column_items_of_ticket:
  "filter (\<lambda>c. clar_context c = ''Column names contain placeholders'') (ticket_clarifications t) =
     (if ticket_type t = ''view_table_data'' \<and> list_ex (\<lambda>col. py_in ''<'' col) (ticket_columns t)
      then [\<lparr>question = ''Column specifications incomplete for '' @ summary t,
              clar_context = ''Column names contain placeholders''\<rparr>]
      else [])"
  by (simp add: ticket_clarifications_def)

lemma column_items_of_tickets:
  "filter (\<lambda>c. clar_context c = ''Column names contain placeholders'')
       (concat (map ticket_clarifications ts)) =
     map (\<lambda>t. \<lparr>question = ''Column specifications incomplete for '' @ summary t,
                 clar_context = ''Column names contain placeholders''\<rparr>)
       (filter (\<lambda>t. ticket_type t = ''view_table_data'' \<and> list_ex (\<lambda>col. py_in ''<'' col) (ticket_columns t)) ts)"
  by (induction ts) (simp_all add: column_items_of_ticket)

lemma column_items_of_epics:
  "filter (\<lambda>c. clar_context c = ''Column names contain placeholders'')
       (concat (map (\<lambda>e. concat (map ticket_clarifications (tickets e))) es)) =
     map (\<lambda>t. \<lparr>question = ''Column specifications incomplete for '' @ summary t,
                 clar_context = ''Column names contain placeholders''\<rparr>)
       (filter (\<lambda>t. ticket_type t = ''view_table_data'' \<and> list_ex (\<lambda>col. py_in ''<'' col) (ticket_columns t))
          (concat (map tickets es)))"
  by (induction es) (simp_all add: column_items_of_tickets)

text \<open>
  C10. All \<open>view_table_data\<close> tickets of the resulting document, whatever their epic and
  tab, carry the same columns: the columns extracted from the whole transcript. The
  column extractor ignores the tab name it is given.
\<close>

theorem columns_not_tab_scoped:
  assumes "process_transcript self dyn now text md = Inr doc"
    and "e1 \<in> set (epics doc)" and "t1 \<in> set (tickets e1)" and "ticket_type t1 = ''view_table_data''"
    and "e2 \<in> set (epics doc)" and "t2 \<in> set (tickets e2)" and "ticket_type t2 = ''view_table_data''"
  shows "map_option columns (details t1) = Some (Some (extract_columns self text None)) \<and>
         map_option columns (details t2) = map_option columns (details t1) \<and>
         extract_columns self text tab = extract_columns self text None"
proof -
  have indep: "extract_columns self text a = extract_columns self text b" for a b
    by (simp add: extract_columns_def)
  from view_ticket_details [OF assms(1,2,3,4)] obtain tab1 where
    "details t1 = Some (no_details\<lparr>tab_name := Some tab1, columns := Some (extract_columns self text (Some tab1))\<rparr>)"
    by blast
  moreover from view_ticket_details [OF assms(1,5,6,7)] obtain tab2 where
    "details t2 = Some (no_details\<lparr>tab_name := Some tab2, columns := Some (extract_columns self text (Some tab2))\<rparr>)"
    by blast
  ultimately show ?thesis using indep [of "Some tab1" None] indep [of "Some tab2" None] indep [of tab None]
    by simp
qed

theorem columns_not_tab_scoped_witness:
  "process_transcript TranscriptProcessor no_dyn sample_clock sample_transcript None = Inr sample_document \<and>
   sample_epic \<in> set (epics sample_document) \<and>
   sample_view_ticket ''A'' \<in> set (tickets sample_epic) \<and>
   ticket_type (sample_view_ticket ''A'') = ''view_table_data'' \<and>
   sample_view_ticket ''B'' \<in> set (tickets sample_epic) \<and>
   ticket_type (sample_view_ticket ''B'') = ''view_table_data'' \<and>
   map_option columns (details (sample_view_ticket ''A'')) =
     Some (Some (extract_columns TranscriptProcessor sample_transcript None)) \<and>
   map_option columns (details (sample_view_ticket ''B'')) =
     map_option columns (details (sample_view_ticket ''A''))"
proof -
  have c: "sample_epic \<in> set (epics sample_document)" by (simp add: sample_document_def)
  have a: "sample_view_ticket ''A'' \<in> set (tickets sample_epic)" by (simp add: sample_epic_def)
  have b: "sample_view_ticket ''B'' \<in> set (tickets sample_epic)" by (simp add: sample_epic_def)
  have ta: "ticket_type (sample_view_ticket ''A'') = ''view_table_data''"
    by (simp add: sample_view_ticket_def)
  have tb: "ticket_type (sample_view_ticket ''B'') = ''view_table_data''"
    by (simp add: sample_view_ticket_def)
  from columns_not_tab_scoped [OF sample_run c a ta c b tb] sample_run c a b ta tb
  show ?thesis by blast
qed

text \<open>
  C7. In every document, an \<open>add_entity\<close> ticket with a field whose name contains a
  bracket-delimited marker such as \<open><Field 1>\<close> has a clarification whose question
  quotes the summary of that ticket, and so has a \<open>view_table_data\<close> ticket with such a
  column. The clarifications about columns are, in order, one for each
  \<open>view_table_data\<close> ticket with an opening bracket in a column, in ticket order.
  In a document the pipeline returns, \<open>clarifications_needed\<close> is that list.
\<close>

theorem clarifications_cover_placeholders:
  assumes "e \<in> set (epics st)" and "t \<in> set (tickets e)"
  shows "(ticket_type t = ''add_entity'' \<and>
            (\<exists>f \<in> set (ticket_fields t). py_in (CHR ''<'' # marker @ ''>'') (f_name f)) \<longrightarrow>
          \<lparr>question = ''Field specifications incomplete for '' @ summary t,
            clar_context = ''Field names or types contain placeholders''\<rparr>
            \<in> set (identify_clarifications st)) \<and>
         (ticket_type t = ''view_table_data'' \<and>
            (\<exists>col \<in> set (ticket_columns t). py_in (CHR ''<'' # marker @ ''>'') col) \<longrightarrow>
          \<lparr>question = ''Column specifications incomplete for '' @ summary t,
            clar_context = ''Column names contain placeholders''\<rparr>
            \<in> set (identify_clarifications st)) \<and>
         filter (\<lambda>c. clar_context c = ''Column names contain placeholders'') (identify_clarifications st) =
           map (\<lambda>t. \<lparr>question = ''Column specifications incomplete for '' @ summary t,
                       clar_context = ''Column names contain placeholders''\<rparr>)
             (filter (\<lambda>t. ticket_type t = ''view_table_data'' \<and>
                           list_ex (\<lambda>col. py_in ''<'' col) (ticket_columns t))
                (concat (map tickets (epics st)))) \<and>
         (process_transcript self dyn now text md = Inr st \<longrightarrow>
            clarifications_needed st = identify_clarifications st)"
proof (intro conjI impI)
  assume "process_transcript self dyn now text md = Inr st"
  then show "clarifications_needed st = identify_clarifications st"
    by (auto simp: process_transcript_def Let_def identify_clarifications_def split: sum.splits)
next
  assume "ticket_type t = ''add_entity'' \<and>
            (\<exists>f \<in> set (ticket_fields t). py_in (CHR ''<'' # marker @ ''>'') (f_name f))"
  then have "ticket_type t = ''add_entity''" and "list_ex (\<lambda>f. py_in ''<'' (f_name f)) (ticket_fields t)"
    by (auto simp: list_ex_iff dest: py_in_bracket)
  then have "\<lparr>question = ''Field specifications incomplete for '' @ summary t,
            clar_context = ''Field names or types contain placeholders''\<rparr> \<in> set (ticket_clarifications t)"
    by (simp add: ticket_clarifications_def)
  then show "\<lparr>question = ''Field specifications incomplete for '' @ summary t,
            clar_context = ''Field names or types contain placeholders''\<rparr> \<in> set (identify_clarifications st)"
    by (rule identify_clarifications_member [OF assms])
next
  assume "ticket_type t = ''view_table_data'' \<and>
            (\<exists>col \<in> set (ticket_columns t). py_in (CHR ''<'' # marker @ ''>'') col)"
  then have "ticket_type t = ''view_table_data''" and "list_ex (\<lambda>col. py_in ''<'' col) (ticket_columns t)"
    by (auto simp: list_ex_iff dest: py_in_bracket)
  then have "\<lparr>question = ''Column specifications incomplete for '' @ summary t,
            clar_context = ''Column names contain placeholders''\<rparr> \<in> set (ticket_clarifications t)"
    by (simp add: ticket_clarifications_def)
  then show "\<lparr>question = ''Column specifications incomplete for '' @ summary t,
            clar_context = ''Column names contain placeholders''\<rparr> \<in> set (identify_clarifications st)"
    by (rule identify_clarifications_member [OF assms])
next
  show "filter (\<lambda>c. clar_context c = ''Column names contain placeholders'') (identify_clarifications st) =
           map (\<lambda>t. \<lparr>question = ''Column specifications incomplete for '' @ summary t,
                       clar_context = ''Column names contain placeholders''\<rparr>)
             (filter (\<lambda>t. ticket_type t = ''view_table_data'' \<and>
                           list_ex (\<lambda>col. py_in ''<'' col) (ticket_columns t))
                (concat (map tickets (epics st))))"
    unfolding identify_clarifications_def by (rule column_items_of_epics)
qed

theorem clarifications_cover_placeholders_witness:
  "sample_epic \<in> set (epics sample_document) \<and>
   sample_add_ticket \<in> set (tickets sample_epic) \<and>
   ticket_type sample_add_ticket = ''add_entity'' \<and>
   py_in (CHR ''<'' # ''Field 1'' @ ''>'') (f_name (hd (ticket_fields sample_add_ticket))) \<and>
   \<lparr>question = ''Field specifications incomplete for '' @ summary sample_add_ticket,
     clar_context = ''Field names or types contain placeholders''\<rparr>
     \<in> set (identify_clarifications sample_document) \<and>
   process_transcript TranscriptProcessor no_dyn sample_clock sample_transcript None = Inr sample_document \<and>
   clarifications_needed sample_document = identify_clarifications sample_document"
proof -
  have c: "sample_epic \<in> set (epics sample_document)" by (simp add: sample_document_def)
  have d: "sample_add_ticket \<in> set (tickets sample_epic)" by (simp add: sample_epic_def)
  have ty: "ticket_type sample_add_ticket = ''add_entity''" by (simp add: sample_add_ticket_def)
  have fs: "ticket_fields sample_add_ticket =
      [\<lparr>f_name = ''<Field 1>'', f_type = ''Text field'', f_mandatory = True\<rparr>]"
    by (simp add: ticket_fields_def sample_add_ticket_def no_details_def)
  have m: "py_in (CHR ''<'' # ''Field 1'' @ ''>'') (f_name (hd (ticket_fields sample_add_ticket)))"
    by (simp add: fs)
  then have "\<exists>f \<in> set (ticket_fields sample_add_ticket). py_in (CHR ''<'' # ''Field 1'' @ ''>'') (f_name f)"
    by (simp add: fs)
  with clarifications_cover_placeholders
         [OF c d, of "''Field 1''" TranscriptProcessor no_dyn sample_clock sample_transcript None]
       ty c d m sample_run
  show ?thesis by blast
qed

text \<open>
  What the synthesizer writes for an \<open>add_entity\<close> ticket: when the transcript contains
  a creation keyword, the last ticket of every epic is an \<open>add_entity\<close> ticket, and the
  summary of every \<open>add_entity\<close> ticket is \<open>User should be able to add a E\<close>, where
  \<open>E\<close> is the inferred entity name.
\<close>

lemma add_entity_summary_as_written:
  assumes "process_transcript self dyn now text md = Inr doc" and "e \<in> set (epics doc)"
    and "any_in [''add'', ''create'', ''new'', ''form''] (lower text)"
  shows "tickets e \<noteq> [] \<and> ticket_type (last (tickets e)) = ''add_entity'' \<and>
         (\<forall>t \<in> set (tickets e). ticket_type t = ''add_entity'' \<longrightarrow>
            summary t = ''User should be able to add a '' @ extract_entity_name text (epic_name e))"
proof -
  from process_transcript_epic [OF assms(1,2)] obtain nm where pe: "process_epic self dyn text nm = Inr e"
    by blast
  from process_epic_Inr(4) [OF pe] obtain ed where
    ed: "generate_tickets_from_text self dyn text nm ed = Inr (tickets e)" by blast
  have nm: "epic_name e = nm" by (rule process_epic_Inr(1) [OF pe])
  have "summary t = ''User should be able to add a '' @ extract_entity_name text nm"
    if "t \<in> set (tickets e)" and "ticket_type t = ''add_entity''" for t
    using generate_tickets_member [OF ed that(1)] that(2) by (auto dest: tab_tickets_types)
  with generate_tickets_add [OF ed assms(3)] nm show ?thesis by simp
qed

text \<open>
  C1. The summary of an \<open>add_entity\<close> ticket is to be the template
  \<open>User should be able to add a E by clicking on "+ E" CTA\<close>, which
  \<open>TicketGenerator.generate_summary\<close> produces. For the transcript
  \<open>Add a medication\<close> the synthesizer infers the entity \<open>medication\<close> and writes
  the summary without the part after the entity name.
\<close>

theorem add_entity_summary_diverges:
  "any_in [''add'', ''create'', ''new'', ''form''] (lower ''Add a medication'') \<and>
   extract_entity_name ''Add a medication'' ''Unnamed Feature'' = ''medication'' \<and>
   generate_tickets_from_text TranscriptProcessor no_dyn ''Add a medication'' ''Unnamed Feature''
       \<lparr>epic_name = ''Unnamed Feature'', epic_description = ''Feature for Unnamed Feature'',
        epic_priority = ''Medium'', scope = ''facility-specific'', tabs = [], tickets = []\<rparr> =
     Inr [\<lparr>ticket_type = ''backend_architecture'',
            summary = ''BE: Implement backend architecture of '' @ [CHR 0x22] @ ''Unnamed Feature'' @ [CHR 0x22],
            priority = ''High'', details = None\<rparr>,
          \<lparr>ticket_type = ''add_entity'',
            summary = ''User should be able to add a medication'',
            priority = ''High'',
            details = Some (no_details\<lparr>entity_name := Some ''medication'',
                              field_specs := Some [\<lparr>f_name = ''<Field 1>'', f_type = ''Text field'',
                                                    f_mandatory = True\<rparr>]\<rparr>)\<rparr>] \<and>
   generate_summary_add_entity (Some ''medication'') =
     ''User should be able to add a medication by clicking on '' @ [CHR 0x22] @ ''+ medication'' @ [CHR 0x22] @ '' CTA''"
  by code_simp





section \<open>Claims about the extraction rules\<close>

text \<open>
  C8, as the code has it. Let the text \<open>only nurses can edit medication records\<close>
  stand in a transcript, and let \<open>b\<close> be the text between it and a full stop before it
  (or the start of the transcript). When one of the RBAC rules has no match that starts in
  \<open>b\<close>, the RBAC map has the actor \<open>Nurses\<close>, and the actions of that actor
  contain the rest of the sentence from \<open>edit medication records\<close> on, stripped, which
  starts with that text. For every actor the action list is the list, in match order, of the
  stripped actions of all rule matches with that capitalized actor: matches accumulate and
  none overwrites another.
\<close>

theorem rbac_only_nurses:
  assumes "a \<noteq> [] \<longrightarrow> last a = CHR ''.''"
    and "\<exists>p \<in> set rbac_patterns.
           no_match_in p b (''only nurses can edit medication records'' @ post)"
  shows "(\<exists>entry. map_of (extract_rbac TranscriptProcessor
                              (a @ b @ ''only nurses can edit medication records'' @ post)) ''Nurses''
                     = Some entry \<and>
            strip (''edit medication records'' @ takeWhile (\<lambda>x. x \<noteq> CHR ''.'') post) \<in> set (actions entry) \<and>
            prefix ''edit medication records''
              (strip (''edit medication records'' @ takeWhile (\<lambda>x. x \<noteq> CHR ''.'') post))) \<and>
         map_of (extract_rbac self text) role =
           (if role \<in> (\<lambda>m. capitalize (group m 1)) ` set (matches_of (pat_rbac (extraction_patterns self)) text)
            then Some \<lparr>permissions = [],
                       actions = map (\<lambda>m. strip (group m 2))
                                   (filter (\<lambda>m. capitalize (group m 1) = role)
                                      (matches_of (pat_rbac (extraction_patterns self)) text))\<rparr>
            else None)"
proof -
  let ?phrase = "''only nurses can edit medication records''"
  let ?action = "''edit medication records'' @ takeWhile (\<lambda>x. x \<noteq> CHR ''.'') post"
  let ?left = "dropWhile (\<lambda>x. x \<noteq> CHR ''.'') post"
  have acc: "map_of (extract_rbac s t) r =
           (if r \<in> (\<lambda>m. capitalize (group m 1)) ` set (matches_of (pat_rbac (extraction_patterns s)) t)
            then Some \<lparr>permissions = [],
                       actions = map (\<lambda>m. strip (group m 2))
                                   (filter (\<lambda>m. capitalize (group m 1) = r)
                                      (matches_of (pat_rbac (extraction_patterns s)) t))\<rparr>
            else None)" for s t r
    by (simp add: extract_rbac_def map_of_foldl_add_rbac)
  from assms(2) obtain p where p: "p \<in> set rbac_patterns"
    and none: "no_match_in p b (?phrase @ post)"
    by blast
  have "\<exists>w. mk_match w (?left, [(2, ?action), (1, ''nurses'')]) \<in> set (finditer True p (?phrase @ post))"
  proof -
    from p consider "p = rbac_patterns ! 0" | "p = rbac_patterns ! 1"
      by (auto simp: rbac_patterns_def)
    then show ?thesis
    proof cases
      case 1
      from nurses_match [of post] obtain ms where
        "rmatch True (rbac_patterns ! 0) (''nurses can edit medication records'' @ post) [] =
           (?left, [(2, ?action), (1, ''nurses'')]) # ms"
        by blast
      from finditer_first [OF this] finditer_skip [OF no_nurses_in_only, of post]
      have "mk_match (''nurses can edit medication records'' @ post) (?left, [(2, ?action), (1, ''nurses'')])
          \<in> set (finditer True (rbac_patterns ! 0) (?phrase @ post))"
        by simp
      with 1 show ?thesis by blast
    next
      case 2
      from only_nurses_match [of post] obtain ms where
        "rmatch True (rbac_patterns ! 1) (?phrase @ post) [] =
           (?left, [(2, ?action), (1, ''nurses'')]) # ms"
        by blast
      from finditer_first [OF this] 2 show ?thesis by blast
    qed
  qed
  then obtain w where "mk_match w (?left, [(2, ?action), (1, ''nurses'')])
      \<in> set (finditer True p (?phrase @ post))" (is "?m \<in> _")
    by blast
  with finditer_skip [OF none] have m0: "?m \<in> set (finditer True p (b @ ?phrase @ post))"
    by simp
  have mem: "?m \<in> set (matches_of rbac_patterns (a @ b @ ?phrase @ post))"
    using assms(1)
  proof (cases rule: sentence_start_cases)
    case 1
    with m0 p show ?thesis by (auto simp: matches_of_def)
  next
    case (2 q)
    from matches_of_member_right [OF rbac_patterns_stop p m0, of q] 2 show ?thesis by simp
  qed
  have role: "capitalize (group ?m 1) = ''Nurses''"
    by (simp add: mk_match_def group_def capitalize_def upper_char_bits lower_char_bits)
  have action: "group ?m 2 = ?action" by (simp add: mk_match_def group_def)
  note matches_member(1) [OF mem role]
  moreover from matches_member(2) [OF mem role]
  have "strip ?action \<in> set (map (\<lambda>m. strip (group m 2))
      (filter (\<lambda>m. capitalize (group m 1) = ''Nurses'')
         (matches_of rbac_patterns (a @ b @ ?phrase @ post))))"
    by (simp only: action)
  moreover have "prefix ''edit medication records'' (strip ?action)"
    by (rule strip_keeps_prefix) (simp_all add: py_isspace_bits)
  ultimately show ?thesis
    using acc [of TranscriptProcessor "a @ b @ ?phrase @ post" "''Nurses''"] acc [of self "text" role]
    by (simp add: table_rbac)
qed

theorem rbac_only_nurses_witness:
  "last ''Rules.'' = CHR ''.'' \<and>
   list_ex (\<lambda>p. no_match_in p '' In this clinic ''
                      (''only nurses can edit medication records'' @ '' daily. Done''))
           rbac_patterns \<and>
   map_of (extract_rbac TranscriptProcessor
             (''Rules.'' @ '' In this clinic '' @ ''only nurses can edit medication records'' @ '' daily. Done''))
          ''Nurses'' =
     Some \<lparr>permissions = [],
           actions = [''edit medication records daily'', ''edit medication records daily'']\<rparr> \<and>
   strip (''edit medication records'' @ takeWhile (\<lambda>x. x \<noteq> CHR ''.'') '' daily. Done'') =
     ''edit medication records daily'' \<and>
   ''edit medication records daily'' \<in>
     set [''edit medication records daily'', ''edit medication records daily''] \<and>
   prefix ''edit medication records'' ''edit medication records daily''"
proof -
  have a: "''Rules.'' \<noteq> [] \<longrightarrow> last ''Rules.'' = CHR ''.''" by simp
  have b: "list_ex (\<lambda>p. no_match_in p '' In this clinic ''
                      (''only nurses can edit medication records'' @ '' daily. Done''))
           rbac_patterns"
    by code_simp
  have c: "map_of (extract_rbac TranscriptProcessor
             (''Rules.'' @ '' In this clinic '' @ ''only nurses can edit medication records'' @ '' daily. Done''))
          ''Nurses'' =
     Some \<lparr>permissions = [],
           actions = [''edit medication records daily'', ''edit medication records daily'']\<rparr>"
    by code_simp
  have d: "strip (''edit medication records'' @ takeWhile (\<lambda>x. x \<noteq> CHR ''.'') '' daily. Done'') =
     ''edit medication records daily''"
    by code_simp
  have e: "last ''Rules.'' = CHR ''.''" by simp
  from rbac_only_nurses [OF a b [unfolded list_ex_iff], THEN conjunct1]
  have "''edit medication records daily'' \<in>
          set [''edit medication records daily'', ''edit medication records daily''] \<and>
        prefix ''edit medication records'' ''edit medication records daily''"
    unfolding c d by simp
  then show ?thesis by (intro conjI e b c d) simp_all
qed

text \<open>
  The claim C8 as the specification states it fails: matches do not overlap, and in the
  transcript below a match that starts earlier in the sentence covers the text, so the
  RBAC map has no actor \<open>Nurses\<close>.
\<close>

theorem rbac_only_nurses_counterexample:
  "py_in ''only nurses can edit medication records''
     ''only doctors can say only nurses can edit medication records'' \<and>
   extract_rbac TranscriptProcessor ''only doctors can say only nurses can edit medication records'' =
     [(''Doctors'', \<lparr>permissions = [],
         actions = [''say only nurses can edit medication records'',
                    ''say only nurses can edit medication records'']\<rparr>)] \<and>
   map_of (extract_rbac TranscriptProcessor ''only doctors can say only nurses can edit medication records'') ''Nurses'' = None"
  by code_simp

text \<open>
  C9, as the code has it. When the text \<open>tabs: Active, Discontinued and History\<close>
  is followed by a full stop or by the end of the transcript, and no tab rule has a match
  that starts before it or a match after it, the tabs are exactly \<open>Active\<close>,
  \<open>Discontinued\<close> and \<open>History\<close>.
  In general the tabs are the captured spans of all matches of the tab rules, rule by
  rule, each split at the separators, with the tokens stripped and the empty ones dropped,
  and nothing is removed as a duplicate.
\<close>

theorem tabs_of_sentence:
  assumes "\<forall>p \<in> set tabs_patterns.
             no_match_in p pre (''tabs: Active, Discontinued and History'' @ post)"
    and "post \<noteq> [] \<longrightarrow> hd post = CHR ''.''"
    and "matches_of tabs_patterns post = []"
  shows "extract_tabs TranscriptProcessor (pre @ ''tabs: Active, Discontinued and History'' @ post) =
           [''Active'', ''Discontinued'', ''History''] \<and>
         extract_tabs self other =
           concat (map (\<lambda>m. map strip (filter (\<lambda>t. strip t \<noteq> [])
                                  (re_split list_separator (group m 1))))
                       (matches_of (pat_tabs (extraction_patterns self)) other))"
proof -
  have "extract_tabs TranscriptProcessor ''tabs: Active, Discontinued and History'' =
      [''Active'', ''Discontinued'', ''History'']"
    by code_simp
  moreover have "matches_of tabs_patterns (pre @ ''tabs: Active, Discontinued and History'' @ post) =
      matches_of tabs_patterns ''tabs: Active, Discontinued and History''"
    by (rule matches_of_sentence [OF tabs_patterns_stop assms(2,1,3)])
  ultimately have "extract_tabs TranscriptProcessor (pre @ ''tabs: Active, Discontinued and History'' @ post) =
      [''Active'', ''Discontinued'', ''History'']"
    by (simp only: extract_tabs_def table_tabs)
  then show ?thesis by (simp add: extract_tabs_def split_names_def)
qed

theorem tabs_of_sentence_witness:
  "list_all (\<lambda>p. no_match_in p ''Intro. The screen has ''
                       (''tabs: Active, Discontinued and History'' @ ''. Done''))
            tabs_patterns \<and>
   hd ''. Done'' = CHR ''.'' \<and> matches_of tabs_patterns ''. Done'' = [] \<and>
   extract_tabs TranscriptProcessor
     (''Intro. The screen has '' @ ''tabs: Active, Discontinued and History'' @ ''. Done'') =
     [''Active'', ''Discontinued'', ''History'']"
proof -
  have a: "list_all (\<lambda>p. no_match_in p ''Intro. The screen has ''
                       (''tabs: Active, Discontinued and History'' @ ''. Done''))
            tabs_patterns"
    by code_simp
  have b: "''. Done'' \<noteq> [] \<longrightarrow> hd ''. Done'' = CHR ''.''" by simp
  have c: "matches_of tabs_patterns ''. Done'' = []" by code_simp
  have d: "hd ''. Done'' = CHR ''.''" by simp
  from tabs_of_sentence [OF a [unfolded list_all_iff] b c, THEN conjunct1]
  show ?thesis by (intro conjI a c d)
qed

text \<open>
  The claim C9 as the specification states it fails: the captured span runs to the end
  of the sentence, so text after \<open>History\<close> becomes part of the last tab.
\<close>

theorem tabs_of_sentence_counterexample:
  "py_in ''tabs: Active, Discontinued and History'' ''tabs: Active, Discontinued and History are needed'' \<and>
   length (matches_of tabs_patterns ''tabs: Active, Discontinued and History are needed'') = 1 \<and>
   extract_tabs TranscriptProcessor ''tabs: Active, Discontinued and History are needed'' =
     [''Active'', ''Discontinued'', ''History are needed''] \<and>
   extract_tabs TranscriptProcessor ''tabs: Active, Discontinued and History are needed'' \<noteq>
     [''Active'', ''Discontinued'', ''History'']"
  by code_simp

end
